theory Spec2Isabelle
  imports Main "HOL-Library.Sublist"
begin

unbundle bit_operations_syntax

section \<open>Byte strings\<close>

text \<open>
  \<open>QByteArray\<close> and \<open>QString\<close> values are modelled as \<open>string\<close> (a list of 8-bit
  characters): a \<open>QString\<close> is identified with its UTF-8 encoding, so \<open>toUtf8\<close> and
  \<open>fromUtf8\<close> are the identity. \<open>startsWith\<close> is \<open>prefix\<close>, \<open>endsWith\<close> is
  \<open>suffix\<close>, \<open>contains\<close> is \<open>sublist\<close> (a contiguous occurrence), \<open>mid n\<close> is
  \<open>drop n\<close>.
\<close>

text \<open>
  \<open>QByteArray::replace(before, after)\<close>: every occurrence of \<open>before\<close>, found from
  left to right without overlap, is replaced by \<open>after\<close>; the text that was put in is not
  searched again. The source calls it with a non-empty \<open>before\<close> only.
\<close>

function QByteArray_replace :: "string \<Rightarrow> string \<Rightarrow> string \<Rightarrow> string" where
  "QByteArray_replace bef aft [] = []"
| "QByteArray_replace bef aft (c # cs) =
     (if bef \<noteq> [] \<and> prefix bef (c # cs)
      then aft @ QByteArray_replace bef aft (drop (length bef) (c # cs))
      else c # QByteArray_replace bef aft cs)"
  by pat_completeness auto
termination
  by (relation "measure (\<lambda>(b, a, s). length s)") auto

text \<open>
  \<open>QByteArray::fromPercentEncoding\<close>: a \<open>%\<close> that has two more bytes after it is
  replaced, with them, by the byte they spell in hexadecimal; every other byte is kept.
  \<^verbatim>\<open>
  while (i < len) {
      c = inputPtr[i];
      if (c == percent && i + 2 < len) {
          a = inputPtr[++i]; b = inputPtr[++i];
          if (a >= '0' && a <= '9') a -= '0';
          else if (a >= 'a' && a <= 'f') a = a - 'a' + 10;
          else if (a >= 'A' && a <= 'F') a = a - 'A' + 10;
          /* the same for b */
          *data++ = (char)((a << 4) | b);
      } else { *data++ = c; }
      ++i; ++outlen;
  }
  \<close>
  A byte that is no hexadecimal digit is used as it is; the cast keeps the low eight bits.
\<close>

definition hexDigit :: "char \<Rightarrow> nat" where
  "hexDigit c =
     (let a = (of_char c :: nat)
      in if 48 \<le> a \<and> a \<le> 57 then a - 48
         else if 97 \<le> a \<and> a \<le> 102 then a - 97 + 10
         else if 65 \<le> a \<and> a \<le> 70 then a - 65 + 10
         else a)"

fun fromPercentEncoding :: "string \<Rightarrow> string" where
  "fromPercentEncoding (c # a # b # cs) =
     (if c = CHR ''%''
      then char_of (((hexDigit a * 16) mod 256) OR hexDigit b) # fromPercentEncoding cs
      else c # fromPercentEncoding (a # b # cs))"
| "fromPercentEncoding (c # cs) = c # fromPercentEncoding cs"
| "fromPercentEncoding [] = []"

text \<open>
  \<open>QString::toLongLong(&ok)\<close>, base 10: white space around the number is ignored, a
  sign may precede the digits, and the value must fit a signed 64-bit integer. \<open>None\<close>
  stands for \<open>ok = false\<close>.
\<close>

definition isSpace :: "char \<Rightarrow> bool" where
  "isSpace c = ((of_char c :: nat) = 32 \<or> (9 \<le> (of_char c :: nat) \<and> (of_char c :: nat) \<le> 13))"

definition isDigit :: "char \<Rightarrow> bool" where
  "isDigit c = (48 \<le> (of_char c :: nat) \<and> (of_char c :: nat) \<le> 57)"

definition trimmed :: "string \<Rightarrow> string" where
  "trimmed s = rev (dropWhile isSpace (rev (dropWhile isSpace s)))"

definition decimal :: "string \<Rightarrow> nat" where
  "decimal ds = foldl (\<lambda>v c. 10 * v + (of_char c - 48)) 0 ds"

definition toLongLong :: "string \<Rightarrow> int option" where
  "toLongLong s =
     (let t = trimmed s;
          neg = (t \<noteq> [] \<and> hd t = CHR ''-'');
          ds = (if t \<noteq> [] \<and> (hd t = CHR ''-'' \<or> hd t = CHR ''+'') then tl t else t);
          v = (if neg then - int (decimal ds) else int (decimal ds))
      in if ds = [] \<or> \<not> list_all isDigit ds then None
         else if - (2 ^ 63) \<le> v \<and> v < 2 ^ 63 then Some v
         else None)"

section \<open>The XML token stream\<close>

text \<open>
  The jobs read their reply through Qt's \<open>QXmlStreamReader\<close>, a pull reader that turns
  the bytes of a document into tokens. The reader is a library; the jobs are written
  against its token interface, and the model starts there: a reply body is the list of
  tokens that successive calls of \<open>readNext\<close> return. A well-formed document is
  \<open>StartDocument\<close>, the tokens of its root element, \<open>EndDocument\<close>. A malformed document
  yields \<open>Invalid\<close> at the point of the error; a list that runs out without
  \<open>EndDocument\<close> is a truncated document, and the read past its end is \<open>Invalid\<close>
  (premature end of document). Elements carry the namespace URI and the local name that
  \<open>namespaceUri()\<close> and \<open>name()\<close> return; the reader has already resolved prefixes such as
  \<open>d:\<close>.
\<close>

datatype token =
    NoToken
  | Invalid
  | StartDocument
  | EndDocument
  | StartElement string string
  | EndElement string string
  | Characters string
  | Comment string
  | DTD string
  | EntityReference string string
  | ProcessingInstruction string

text \<open>The reader: the current token (\<open>tokenType()\<close> with its data) and the unread tokens.
  A fresh reader is at \<open>NoToken\<close>. Raising an error sets the token type to \<open>Invalid\<close>, so
  \<open>hasError()\<close> is "the current token is \<open>Invalid\<close>".\<close>

type_synonym reader = "token \<times> token list"

definition atEnd :: "reader \<Rightarrow> bool" where
  "atEnd r = (fst r = Invalid \<or> fst r = EndDocument)"

definition hasError :: "reader \<Rightarrow> bool" where
  "hasError r = (fst r = Invalid)"

text \<open>\<open>readNext()\<close>: once the reader is in error it stays there; \<open>EndDocument\<close> is the last
  token of a document, and a read after it is an error as well.\<close>

definition readNext :: "reader \<Rightarrow> reader" where
  "readNext r =
     (if fst r = Invalid \<or> fst r = EndDocument then (Invalid, snd r)
      else case snd r of [] \<Rightarrow> (Invalid, []) | t # ts \<Rightarrow> (t, ts))"

fun isStartElement :: "token \<Rightarrow> bool" where
  "isStartElement (StartElement ns n) = True"
| "isStartElement _ = False"

fun isEndElement :: "token \<Rightarrow> bool" where
  "isEndElement (EndElement ns n) = True"
| "isEndElement _ = False"

text \<open>\<open>name()\<close>: the local name of a start element, an end element or an entity reference,
  empty for every other token. \<open>namespaceUri()\<close>: of a start or an end element.\<close>

fun name :: "token \<Rightarrow> string" where
  "name (StartElement ns n) = n"
| "name (EndElement ns n) = n"
| "name (EntityReference n x) = n"
| "name _ = []"

fun namespaceUri :: "token \<Rightarrow> string" where
  "namespaceUri (StartElement ns n) = ns"
| "namespaceUri (EndElement ns n) = ns"
| "namespaceUri _ = []"

text \<open>
  \<open>readElementText()\<close> with its default behaviour \<open>ErrorOnUnexpectedElement\<close>, called
  on a start element: it reads on to the end element and returns the character data in
  between; comments and processing instructions are skipped; at a child element, or at
  any other token, it raises an error and returns what it has read so far. Called on
  anything but a start element it returns the empty string and reads nothing.
  \<^verbatim>\<open>
  if (isStartElement()) {
      QString result;
      forever {
          switch (readNext()) {
          case Characters: case EntityReference: result.insert(result.size(), d->text); break;
          case EndElement: return result;
          case ProcessingInstruction: case Comment: break;
          case StartElement: /* neither SkipChildElements nor IncludeChildElements */
          default:
              if (d->error || behaviour == ErrorOnUnexpectedElement) {
                  if (!d->error) d->raiseError(UnexpectedElementError, ...);
                  return result;
              }
          }
      }
  }
  return QString();
  \<close>
  The loop starts at a start element and goes on from character data, comments and
  processing instructions only, so each \<open>readNext()\<close> in it takes the next unread token.
\<close>

fun readElementText_loop :: "token list \<Rightarrow> string \<Rightarrow> string \<times> reader" where
  "readElementText_loop [] result = (result, (Invalid, []))"
| "readElementText_loop (Characters x # ts) result = readElementText_loop ts (result @ x)"
| "readElementText_loop (EntityReference n x # ts) result = readElementText_loop ts (result @ x)"
| "readElementText_loop (EndElement ns n # ts) result = (result, (EndElement ns n, ts))"
| "readElementText_loop (ProcessingInstruction x # ts) result = readElementText_loop ts result"
| "readElementText_loop (Comment x # ts) result = readElementText_loop ts result"
| "readElementText_loop (t # ts) result = (result, (Invalid, ts))"

definition readElementText :: "reader \<Rightarrow> string \<times> reader" where
  "readElementText r =
     (if isStartElement (fst r) then readElementText_loop (snd r) [] else ([], r))"

text \<open>
  \<^verbatim>\<open>
  static QString readContentsAsString(QXmlStreamReader &reader)
  {
      QString result;
      int level = 0;
      do {
          QXmlStreamReader::TokenType type = reader.readNext();
          if (type == QXmlStreamReader::StartElement) {
              level++;
              result += QLatin1Char('<') + reader.name().toString() + QLatin1Char('>');
          } else if (type == QXmlStreamReader::Characters) {
              result += reader.text();
          } else if (type == QXmlStreamReader::EndElement) {
              level--;
              if (level < 0) { break; }
              result += QStringLiteral("</") + reader.name().toString() + QLatin1Char('>');
          }
      } while (!reader.atEnd());
      return result;
  }
  \<close>
  The loop goes on from tokens that are not at the end, so each \<open>readNext()\<close> in it takes
  the next unread token; the first read, from a reader that is at its end, is \<open>Invalid\<close>.
\<close>

fun readContentsAsString_loop :: "token list \<Rightarrow> int \<Rightarrow> string \<Rightarrow> string \<times> reader" where
  "readContentsAsString_loop [] level result = (result, (Invalid, []))"
| "readContentsAsString_loop (StartElement ns n # ts) level result =
     readContentsAsString_loop ts (level + 1) (result @ ''<'' @ n @ ''>'')"
| "readContentsAsString_loop (Characters x # ts) level result =
     readContentsAsString_loop ts level (result @ x)"
| "readContentsAsString_loop (EndElement ns n # ts) level result =
     (if level - 1 < 0 then (result, (EndElement ns n, ts))
      else readContentsAsString_loop ts (level - 1) (result @ ''</'' @ n @ ''>''))"
| "readContentsAsString_loop (Invalid # ts) level result = (result, (Invalid, ts))"
| "readContentsAsString_loop (EndDocument # ts) level result = (result, (EndDocument, ts))"
| "readContentsAsString_loop (t # ts) level result = readContentsAsString_loop ts level result"

definition readContentsAsString :: "reader \<Rightarrow> string \<times> reader" where
  "readContentsAsString r =
     (if fst r = Invalid \<or> fst r = EndDocument then ([], (Invalid, snd r))
      else readContentsAsString_loop (snd r) 0 [])"

section \<open>Entity tags: \<open>parseEtag\<close>\<close>

text \<open>
  \<^verbatim>\<open>
  QByteArray parseEtag(const QByteArray &header)
  {
      if (header.isEmpty()) return QByteArray();
      QByteArray arr = header;
      if (arr.startsWith("W/")) arr = arr.mid(2);
      arr.replace("-gzip", "");
      if (arr.length() >= 2 && arr.startsWith('"') && arr.endsWith('"'))
          arr = arr.mid(1, arr.length() - 2);
      return arr;
  }
  \<close>
\<close>

definition parseEtag :: "string \<Rightarrow> string" where
  \<open>parseEtag header =
     (if header = [] then []
      else let arr = header;
               arr = (if prefix ''W/'' arr then drop 2 arr else arr);
               arr = QByteArray_replace ''-gzip'' [] arr
           in if 2 \<le> length arr \<and> prefix ''"'' arr \<and> suffix ''"'' arr
              then take (length arr - 2) (drop 1 arr) else arr)\<close>

section \<open>\<open>RequestEtagJob::finished\<close>\<close>

text \<open>
  \<^verbatim>\<open>
  auto httpCode = reply()->attribute(QNetworkRequest::HttpStatusCodeAttribute).toInt();
  if (httpCode == 207) {
      QXmlStreamReader reader(reply());
      QString etag;
      while (!reader.atEnd()) {
          QXmlStreamReader::TokenType type = reader.readNext();
          if (type == QXmlStreamReader::StartElement && reader.namespaceUri() == QLatin1String("DAV:")) {
              QString name = reader.name().toString();
              if (name == QLatin1String("getetag")) {
                  auto etagText = reader.readElementText();
                  auto parsedTag = parseEtag(etagText.toUtf8());
                  if (!parsedTag.isEmpty()) { etag += QString::fromUtf8(parsedTag); }
                  else { etag += etagText; }
              }
          }
      }
      emit etagRetreived(etag, QDateTime::fromString(QString::fromUtf8(_responseTimestamp), Qt::RFC2822Date));
      emit finishedWithResult(etag);
  } else {
      emit finishedWithResult(HttpError{ httpCode, errorString() });
  }
  return true;
  \<close>
  The signals a call emits are returned as a list, in the order of emission. The
  timestamp is passed on as the header text it is parsed from.
\<close>

lemma readElementText_loop_length:
  "length (snd (snd (readElementText_loop ts acc))) \<le> length ts"
  by (induction ts acc rule: readElementText_loop.induct) auto

lemma readElementText_length:
  "length (snd (snd (readElementText r))) \<le> length (snd r)"
  using readElementText_loop_length [of "snd r" "[]"]
  by (simp add: readElementText_def)

text \<open>One pass of the loop body, from the token that \<open>readNext()\<close> returned.\<close>

definition RequestEtagJob_iteration :: "reader \<Rightarrow> string \<Rightarrow> reader \<times> string" where
  "RequestEtagJob_iteration r etag =
     (if isStartElement (fst r) \<and> namespaceUri (fst r) = ''DAV:'' \<and> name (fst r) = ''getetag''
      then let (etagText, r') = readElementText r;
               parsedTag = parseEtag etagText
           in (r', if parsedTag \<noteq> [] then etag @ parsedTag else etag @ etagText)
      else (r, etag))"

lemma RequestEtagJob_iteration_length:
  "length (snd (fst (RequestEtagJob_iteration r etag))) \<le> length (snd r)"
  using readElementText_length [of r]
  by (auto simp: RequestEtagJob_iteration_def Let_def split: prod.split)

lemma readNext_measure:
  "\<not> atEnd r \<Longrightarrow> length (snd r') \<le> length (snd (readNext r)) \<Longrightarrow>
   (atEnd (readNext r) \<longrightarrow> r' = readNext r) \<Longrightarrow>
   length (snd r') + (if atEnd r' then 0 else 1) < length (snd r) + (if atEnd r then 0 else 1)"
  by (cases r; cases "snd r") (auto simp: readNext_def atEnd_def)

function RequestEtagJob_loop :: "reader \<Rightarrow> string \<Rightarrow> string" where
  "RequestEtagJob_loop r etag =
     (if atEnd r then etag
      else case RequestEtagJob_iteration (readNext r) etag of
             (r', etag') \<Rightarrow> RequestEtagJob_loop r' etag')"
  by pat_completeness auto
termination
proof (relation "measure (\<lambda>(r, etag). length (snd r) + (if atEnd r then 0 else 1))")
  show "wf (measure (\<lambda>(r, etag). length (snd r) + (if atEnd r then 0 else 1)))"
    by simp
next
  fix r :: reader and etag :: string and r' etag'
  assume ne: "\<not> atEnd r" and p: "(r', etag') = RequestEtagJob_iteration (readNext r) etag"
  have r': "r' = fst (RequestEtagJob_iteration (readNext r) etag)"
    using p by (metis fst_conv)
  have len: "length (snd r') \<le> length (snd (readNext r))"
    unfolding r' by (rule RequestEtagJob_iteration_length)
  have stay: "atEnd (readNext r) \<longrightarrow> r' = readNext r"
    unfolding r' by (cases "fst (readNext r)") (auto simp: RequestEtagJob_iteration_def atEnd_def)
  from readNext_measure [OF ne len stay]
  show "((r', etag'), (r, etag)) \<in> measure (\<lambda>(r, etag). length (snd r) + (if atEnd r then 0 else 1))"
    by simp
qed

datatype etag_signal =
    EtagRetreived string string
  | FinishedWithResult string
  | FinishedWithError int string

definition RequestEtagJob_finished ::
  "int \<Rightarrow> string \<Rightarrow> string \<Rightarrow> token list \<Rightarrow> etag_signal list" where
  "RequestEtagJob_finished httpCode errorString responseTimestamp body =
     (if httpCode = 207
      then let etag = RequestEtagJob_loop (NoToken, body) []
           in [EtagRetreived etag responseTimestamp, FinishedWithResult etag]
      else [FinishedWithError httpCode errorString])"

section \<open>\<open>LsColXMLParser::parse\<close>\<close>

text \<open>
  The parser emits \<open>directoryListingIterated(href, properties)\<close> once per response
  element, and \<open>directoryListingSubfolders(folders)\<close> and \<open>finishedWithoutError()\<close> at the
  end of a successful parse. The signals are collected in the order of emission. A
  \<open>QMap<QString, QString>\<close> is a map \<open>string \<rightharpoonup> string\<close>; the out-parameter
  \<open>QHash<QString, qint64> *sizes\<close> is an optional map, \<open>None\<close> for a null pointer.
\<close>

datatype lscol_signal =
    DirectoryListingIterated string "string \<rightharpoonup> string"
  | DirectoryListingSubfolders "string list"
  | FinishedWithoutError

record lscol_state =
  folders :: "string list"
  currentHref :: string
  currentTmpProperties :: "string \<rightharpoonup> string"
  currentHttp200Properties :: "string \<rightharpoonup> string"
  currentPropsHaveHttp200 :: bool
  insidePropstat :: bool
  insideProp :: bool
  insideMultiStatus :: bool
  sizes :: "(string \<rightharpoonup> int) option"
  emitted :: "lscol_signal list"

text \<open>How a part of the loop body leaves: on to the rest of the body, \<open>continue\<close>, or
  \<open>return false\<close>.\<close>

datatype flow = Proceed | Continue | ReturnFalse

text \<open>
  Start elements of the \<open>DAV:\<close> namespace.
  \<^verbatim>\<open>
  if (name == QLatin1String("href")) {
      QString hrefString = QString::fromUtf8(QByteArray::fromPercentEncoding(reader.readElementText().toUtf8()));
      if (!hrefString.startsWith(expectedPath)) { return false; }
      currentHref = hrefString;
  } else if (name == QLatin1String("response")) {
  } else if (name == QLatin1String("propstat")) {
      insidePropstat = true;
  } else if (name == QLatin1String("status") && insidePropstat) {
      QString httpStatus = reader.readElementText();
      if (httpStatus.startsWith(QLatin1String("HTTP/1.1 200"))) { currentPropsHaveHttp200 = true; }
      else { currentPropsHaveHttp200 = false; }
  } else if (name == QLatin1String("prop")) {
      insideProp = true;
      continue;
  } else if (name == QLatin1String("multistatus")) {
      insideMultiStatus = true;
      continue;
  }
  \<close>
\<close>

definition LsCol_startElement ::
  "string \<Rightarrow> reader \<Rightarrow> lscol_state \<Rightarrow> flow \<times> reader \<times> lscol_state" where
  "LsCol_startElement expectedPath r s =
     (if name (fst r) = ''href'' then
        (case readElementText r of (txt, r') \<Rightarrow>
           let hrefString = fromPercentEncoding txt
           in if \<not> prefix expectedPath hrefString then (ReturnFalse, r', s)
              else (Proceed, r', s\<lparr>currentHref := hrefString\<rparr>))
      else if name (fst r) = ''response'' then (Proceed, r, s)
      else if name (fst r) = ''propstat'' then (Proceed, r, s\<lparr>insidePropstat := True\<rparr>)
      else if name (fst r) = ''status'' \<and> insidePropstat s then
        (case readElementText r of (httpStatus, r') \<Rightarrow>
           (Proceed, r', s\<lparr>currentPropsHaveHttp200 := prefix ''HTTP/1.1 200'' httpStatus\<rparr>))
      else if name (fst r) = ''prop'' then (Continue, r, s\<lparr>insideProp := True\<rparr>)
      else if name (fst r) = ''multistatus'' then (Continue, r, s\<lparr>insideMultiStatus := True\<rparr>)
      else (Proceed, r, s))"

text \<open>
  A start element inside \<open>propstat\<close> and \<open>prop\<close> is a property; \<open>nm\<close> is the name the
  loop read at the start element.
  \<^verbatim>\<open>
  QString propertyContent = readContentsAsString(reader);
  if (name == QLatin1String("resourcetype") && propertyContent.contains(QLatin1String("collection"))) {
      folders.append(currentHref);
  } else if (name == QLatin1String("size")) {
      bool ok = false;
      auto s = propertyContent.toLongLong(&ok);
      if (ok && sizes) { sizes->insert(currentHref, s); }
  }
  currentTmpProperties.insert(reader.name().toString(), propertyContent);
  \<close>
\<close>

definition LsCol_property :: "string \<Rightarrow> reader \<Rightarrow> lscol_state \<Rightarrow> reader \<times> lscol_state" where
  "LsCol_property nm r s =
     (case readContentsAsString r of (propertyContent, r') \<Rightarrow>
        let s' = (if nm = ''resourcetype'' \<and> sublist ''collection'' propertyContent
                  then s\<lparr>folders := folders s @ [currentHref s]\<rparr>
                  else if nm = ''size'' then
                    (case toLongLong propertyContent of
                       None \<Rightarrow> s
                     | Some n \<Rightarrow>
                         (case sizes s of
                            None \<Rightarrow> s
                          | Some m \<Rightarrow> s\<lparr>sizes := Some (m(currentHref s \<mapsto> n))\<rparr>))
                  else s)
        in (r', s'\<lparr>currentTmpProperties :=
                      (currentTmpProperties s')(name (fst r') \<mapsto> propertyContent)\<rparr>))"

text \<open>
  End elements of the \<open>DAV:\<close> namespace.
  \<^verbatim>\<open>
  if (reader.name() == QLatin1String("response")) {
      if (currentHref.endsWith(QLatin1Char('/'))) { currentHref.chop(1); }
      emit directoryListingIterated(currentHref, currentHttp200Properties);
      currentHref.clear();
      currentHttp200Properties.clear();
  } else if (reader.name() == QLatin1String("propstat")) {
      insidePropstat = false;
      if (currentPropsHaveHttp200) {
          currentHttp200Properties = QMap<QString, QString>(currentTmpProperties);
      }
      currentTmpProperties.clear();
      currentPropsHaveHttp200 = false;
  } else if (reader.name() == QLatin1String("prop")) {
      insideProp = false;
  }
  \<close>
\<close>

definition chopSlash :: "string \<Rightarrow> string" where
  "chopSlash href = (if suffix ''/'' href then butlast href else href)"

definition LsCol_endElement :: "reader \<Rightarrow> lscol_state \<Rightarrow> lscol_state" where
  "LsCol_endElement r s =
     (if namespaceUri (fst r) = ''DAV:'' then
        if name (fst r) = ''response'' then
          s\<lparr>emitted := emitted s @
                 [DirectoryListingIterated (chopSlash (currentHref s)) (currentHttp200Properties s)],
            currentHref := [],
            currentHttp200Properties := Map.empty\<rparr>
        else if name (fst r) = ''propstat'' then
          s\<lparr>insidePropstat := False,
            currentHttp200Properties :=
              (if currentPropsHaveHttp200 s then currentTmpProperties s
               else currentHttp200Properties s),
            currentTmpProperties := Map.empty,
            currentPropsHaveHttp200 := False\<rparr>
        else if name (fst r) = ''prop'' then s\<lparr>insideProp := False\<rparr>
        else s
      else s)"

text \<open>
  The loop body, from the token \<open>type\<close> that \<open>readNext()\<close> returned: \<open>type\<close> and \<open>name\<close>
  are the loop's local copies, taken before anything else is read.
  \<^verbatim>\<open>
  QXmlStreamReader::TokenType type = reader.readNext();
  QString name = reader.name().toString();
  if (type == QXmlStreamReader::StartElement && reader.namespaceUri() == QLatin1String("DAV:")) { ... }
  if (type == QXmlStreamReader::StartElement && insidePropstat && insideProp) { ... }
  if (type == QXmlStreamReader::EndElement) {
      if (reader.namespaceUri() == QLatin1String("DAV:")) { ... }
  }
  \<close>
\<close>

definition LsCol_iteration ::
  "string \<Rightarrow> reader \<Rightarrow> lscol_state \<Rightarrow> flow \<times> reader \<times> lscol_state" where
  "LsCol_iteration expectedPath r s =
     (case (if isStartElement (fst r) \<and> namespaceUri (fst r) = ''DAV:''
            then LsCol_startElement expectedPath r s else (Proceed, r, s)) of
        (f, r1, s1) \<Rightarrow>
          if f \<noteq> Proceed then (f, r1, s1)
          else case (if isStartElement (fst r) \<and> insidePropstat s1 \<and> insideProp s1
                     then LsCol_property (name (fst r)) r1 s1 else (r1, s1)) of
                 (r2, s2) \<Rightarrow>
                   (Proceed, r2, if isEndElement (fst r) then LsCol_endElement r2 s2 else s2))"

lemma readContentsAsString_loop_length:
  "length (snd (snd (readContentsAsString_loop ts level acc))) \<le> length ts"
  by (induction ts level acc rule: readContentsAsString_loop.induct) auto

lemma readContentsAsString_length:
  "length (snd (snd (readContentsAsString r))) \<le> length (snd r)"
  using readContentsAsString_loop_length [of "snd r" 0 "[]"]
  by (simp add: readContentsAsString_def)

lemma LsCol_startElement_length:
  "length (snd (fst (snd (LsCol_startElement ep r s)))) \<le> length (snd r)"
  using readElementText_length [of r]
  by (auto simp: LsCol_startElement_def Let_def split: prod.split)

lemma LsCol_property_length:
  "length (snd (fst (LsCol_property nm r s))) \<le> length (snd r)"
  using readContentsAsString_length [of r]
  by (auto simp: LsCol_property_def Let_def split: prod.split)

lemma LsCol_iteration_length:
  "length (snd (fst (snd (LsCol_iteration ep r s)))) \<le> length (snd r)"
proof -
  obtain f r1 s1 where st:
    "(if isStartElement (fst r) \<and> namespaceUri (fst r) = ''DAV:''
      then LsCol_startElement ep r s else (Proceed, r, s)) = (f, r1, s1)"
    using prod_cases3 by blast
  have l1: "length (snd r1) \<le> length (snd r)"
    using LsCol_startElement_length [of ep r s] st by (auto split: if_splits)
  obtain r2 s2 where pr:
    "(if isStartElement (fst r) \<and> insidePropstat s1 \<and> insideProp s1
      then LsCol_property (name (fst r)) r1 s1 else (r1, s1)) = (r2, s2)"
    by fastforce
  have l2: "length (snd r2) \<le> length (snd r1)"
    using LsCol_property_length [of "name (fst r)" r1 s1] pr by (auto split: if_splits)
  have "fst (snd (LsCol_iteration ep r s)) = (if f \<noteq> Proceed then r1 else r2)"
    using pr by (auto simp: LsCol_iteration_def st split: if_splits)
  with l1 l2 show ?thesis by simp
qed

lemma LsCol_iteration_atEnd:
  "atEnd r \<Longrightarrow> fst (snd (LsCol_iteration ep r s)) = r"
  by (cases "fst r") (auto simp: LsCol_iteration_def atEnd_def)

function LsCol_loop :: "string \<Rightarrow> reader \<Rightarrow> lscol_state \<Rightarrow> bool \<times> reader \<times> lscol_state" where
  "LsCol_loop expectedPath r s =
     (if atEnd r then (True, r, s)
      else case LsCol_iteration expectedPath (readNext r) s of
             (f, r', s') \<Rightarrow>
               if f = ReturnFalse then (False, r', s') else LsCol_loop expectedPath r' s')"
  by pat_completeness auto
termination
proof (relation "measure (\<lambda>(ep, r, s). length (snd r) + (if atEnd r then 0 else 1))")
  show "wf (measure (\<lambda>(ep, r, s). length (snd r) + (if atEnd r then 0 else 1)))"
    by simp
next
  fix ep :: string and r :: reader and s :: lscol_state and f r' x s'
  assume ne: "\<not> atEnd r" and p: "(f, x) = LsCol_iteration ep (readNext r) s"
    and q: "(r', s') = x"
  have r': "r' = fst (snd (LsCol_iteration ep (readNext r) s))"
    using p q by (metis fst_conv snd_conv)
  have len: "length (snd r') \<le> length (snd (readNext r))"
    unfolding r' by (rule LsCol_iteration_length)
  have stay: "atEnd (readNext r) \<longrightarrow> r' = readNext r"
    unfolding r' by (simp add: LsCol_iteration_atEnd)
  from readNext_measure [OF ne len stay]
  show "((ep, r', s'), (ep, r, s)) \<in> measure (\<lambda>(ep, r, s). length (snd r) + (if atEnd r then 0 else 1))"
    by simp
qed

text \<open>
  \<^verbatim>\<open>
  if (reader.hasError()) { return false; }
  else if (!insideMultiStatus) { return false; }
  else {
      emit directoryListingSubfolders(folders);
      emit finishedWithoutError();
  }
  return true;
  \<close>
  The result is the returned flag, the signals emitted and the sizes map as the call
  leaves it.
\<close>

definition LsColXMLParser_parse ::
  "token list \<Rightarrow> (string \<rightharpoonup> int) option \<Rightarrow> string
     \<Rightarrow> bool \<times> lscol_signal list \<times> (string \<rightharpoonup> int) option" where
  "LsColXMLParser_parse xml sizes0 expectedPath =
     (case LsCol_loop expectedPath (NoToken, xml)
             \<lparr>folders = [], currentHref = [], currentTmpProperties = Map.empty,
              currentHttp200Properties = Map.empty, currentPropsHaveHttp200 = False,
              insidePropstat = False, insideProp = False, insideMultiStatus = False,
              sizes = sizes0, emitted = []\<rparr> of
        (completed, r, s) \<Rightarrow>
          if \<not> completed then (False, emitted s, sizes s)
          else if hasError r then (False, emitted s, sizes s)
          else if \<not> insideMultiStatus s then (False, emitted s, sizes s)
          else (True, emitted s @ [DirectoryListingSubfolders (folders s), FinishedWithoutError],
                sizes s))"

section \<open>\<open>CheckServerJob\<close>\<close>

text \<open>
  The reply as \<open>finished()\<close> reads it: the network error, the HTTP status code, the body
  and the target URL (the reply's URL, resolved against the server URL, with
  \<open>/status.php\<close> removed from its path; Qt's URL functions compute it). The job keeps the
  fallback flag, its path and the server URL. \<open>QJsonDocument::fromJson\<close> is a parameter
  of the model: it yields \<open>JsonInvalid\<close> for a parse error (a null document), and
  otherwise the array or the object that the text spells. \<open>object()\<close> of a document that
  holds no object is the empty object.
\<close>

datatype NetworkError = NoError | ContentNotFoundError | TooManyRedirectsError | OtherError nat

record reply =
  error :: NetworkError
  httpStatus :: int
  replyBody :: string
  targetUrl :: string

record check_server_job =
  subdirFallback :: bool
  path :: string
  serverUrl :: string

datatype 'v JsonDocument = JsonInvalid | JsonArray | JsonObject "string \<rightharpoonup> 'v"

fun object :: "'v JsonDocument \<Rightarrow> (string \<rightharpoonup> 'v)" where
  "object (JsonObject m) = m"
| "object _ = Map.empty"

text \<open>What a run of the job does that others see: the requests it sends (by path) and the
  signals it emits.\<close>

datatype 'v check_server_event =
    SendRequest string
  | RedirectDetected string string
  | InstanceFound string "string \<rightharpoonup> 'v"
  | InstanceNotFound

definition statusphpC :: string where
  "statusphpC = ''status.php''"

definition owncloudDirC :: string where
  "owncloudDirC = ''owncloud/''"

text \<open>
  \<^verbatim>\<open>
  CheckServerJob::CheckServerJob(AccountPtr account, QObject *parent)
      : AbstractNetworkJob(account, statusphpC(), parent), _subdirFallback(false)
  void CheckServerJob::start()
  {
      _serverUrl = account()->url();
      ...
      sendRequest("GET", Utility::concatUrlPath(_serverUrl, path()), req);
      ...
  }
  \<close>
\<close>

definition CheckServerJob_new :: "string \<Rightarrow> check_server_job" where
  "CheckServerJob_new accountUrl =
     \<lparr>subdirFallback = False, path = statusphpC, serverUrl = accountUrl\<rparr>"

definition CheckServerJob_start :: "check_server_job \<Rightarrow> 'v check_server_event list" where
  "CheckServerJob_start job = [SendRequest (path job)]"

text \<open>
  \<^verbatim>\<open>
  if (_serverUrl != targetUrl) { Q_EMIT redirectDetected(_serverUrl, targetUrl); }
  ...
  if ((reply()->error() == QNetworkReply::ContentNotFoundError) && (!_subdirFallback)) {
      _subdirFallback = true;
      setPath(owncloudDirC() + statusphpC());
      start();
      return false;
  }
  const QByteArray body = reply()->peek(4 * 1024);
  const int httpStatus = reply()->attribute(QNetworkRequest::HttpStatusCodeAttribute).toInt();
  if (reply()->error() == QNetworkReply::TooManyRedirectsError) {
      emit instanceNotFound(reply());
  } else if (body.isEmpty() || httpStatus != 200) {
      emit instanceNotFound(reply());
  } else {
      QJsonParseError error;
      auto status = QJsonDocument::fromJson(body, &error);
      if (error.error != QJsonParseError::NoError || status.isNull()) { /* a warning */ }
      if (status.object().contains(QStringLiteral("installed"))) {
          emit instanceFound(targetUrl, status.object());
      } else {
          emit instanceNotFound(reply());
      }
  }
  return true;
  \<close>
  The result is the returned flag (true: the job is done), the job as the call leaves it
  and the events of the call. Log lines and the TLS session data copied to the account
  are left out.
\<close>

definition CheckServerJob_finished ::
  "(string \<Rightarrow> 'v JsonDocument) \<Rightarrow> check_server_job \<Rightarrow> reply
     \<Rightarrow> bool \<times> check_server_job \<times> 'v check_server_event list" where
  "CheckServerJob_finished fromJson job r =
     (let redirect = (if serverUrl job \<noteq> targetUrl r
                      then [RedirectDetected (serverUrl job) (targetUrl r)] else [])
      in if error r = ContentNotFoundError \<and> \<not> subdirFallback job then
           (let job' = job\<lparr>subdirFallback := True, path := owncloudDirC @ statusphpC\<rparr>
            in (False, job', redirect @ CheckServerJob_start job'))
         else
           (let body = take (4 * 1024) (replyBody r)
            in if error r = TooManyRedirectsError then (True, job, redirect @ [InstanceNotFound])
               else if body = [] \<or> httpStatus r \<noteq> 200 then (True, job, redirect @ [InstanceNotFound])
               else (let status = fromJson body
                     in if ''installed'' \<in> dom (object status)
                        then (True, job, redirect @ [InstanceFound (targetUrl r) (object status)])
                        else (True, job, redirect @ [InstanceNotFound]))))"

text \<open>
  A run of the job: it is started, and \<open>finished()\<close> is called with the reply of each
  request it has sent, until \<open>finished()\<close> returns true. The replies are given as they
  arrive; a list that runs out leaves a request unanswered.
\<close>

fun CheckServerJob_replies ::
  "(string \<Rightarrow> 'v JsonDocument) \<Rightarrow> check_server_job \<Rightarrow> reply list \<Rightarrow> 'v check_server_event list" where
  "CheckServerJob_replies fromJson job [] = []"
| "CheckServerJob_replies fromJson job (r # rs) =
     (case CheckServerJob_finished fromJson job r of
        (done, job', events) \<Rightarrow>
          if done then events else events @ CheckServerJob_replies fromJson job' rs)"

definition CheckServerJob_run ::
  "(string \<Rightarrow> 'v JsonDocument) \<Rightarrow> string \<Rightarrow> reply list \<Rightarrow> 'v check_server_event list" where
  "CheckServerJob_run fromJson accountUrl rs =
     CheckServerJob_start (CheckServerJob_new accountUrl)
       @ CheckServerJob_replies fromJson (CheckServerJob_new accountUrl) rs"

fun isSendRequest :: "'v check_server_event \<Rightarrow> bool" where
  "isSendRequest (SendRequest p) = True"
| "isSendRequest _ = False"

text \<open>The four conditions of a successful discovery, on the body as the job reads it (the
  first 4096 bytes): it is not empty, the status is 200, it is valid JSON, and the JSON
  object has a field \<open>installed\<close>.\<close>

definition discovery_success :: "(string \<Rightarrow> 'v JsonDocument) \<Rightarrow> reply \<Rightarrow> bool" where
  "discovery_success fromJson r =
     (take 4096 (replyBody r) \<noteq> [] \<and> httpStatus r = 200
      \<and> fromJson (take 4096 (replyBody r)) \<noteq> JsonInvalid
      \<and> ''installed'' \<in> dom (object (fromJson (take 4096 (replyBody r)))))"

section \<open>\<open>DetermineAuthTypeJob\<close>\<close>

text \<open>
  \<open>QByteArray::toLower\<close>: the upper-case letters \<open>A\<close> to \<open>Z\<close> become lower case. (Qt 5
  reads the bytes as Latin-1 and lowers the accented capitals as well; no byte of
  \<open>bearer \<close> is such a letter or its image, so the test below comes out the same.)
\<close>

definition toLower_char :: "char \<Rightarrow> char" where
  "toLower_char c =
     (if 65 \<le> (of_char c :: nat) \<and> (of_char c :: nat) \<le> 90 then char_of ((of_char c :: nat) + 32) else c)"

definition toLower :: "string \<Rightarrow> string" where
  "toLower s = map toLower_char s"

datatype AuthType = Basic | OAuth

text \<open>\<open>reply->rawHeader(name)\<close> is the empty byte array when the reply has no such header.\<close>

fun rawHeader :: "string option \<Rightarrow> string" where
  "rawHeader None = []"
| "rawHeader (Some v) = v"

text \<open>
  The handler of the probe's \<open>finishedSignal\<close>, given the \<open>WWW-Authenticate\<close> header of the
  reply if it has one.
  \<^verbatim>\<open>
  auto authChallenge = reply->rawHeader("WWW-Authenticate").toLower();
  auto result = AuthType::Basic;
  if (authChallenge.contains("bearer ")) {
      result = AuthType::OAuth;
  } else if (authChallenge.isEmpty()) {
      qCWarning(lcDetermineAuthTypeJob) << "Did not receive WWW-Authenticate reply to auth-test PROPFIND";
  }
  qCInfo(lcDetermineAuthTypeJob) << "Auth type for" << _account->davUrl() << "is" << result;
  emit this->authType(result);
  this->deleteLater();
  \<close>
\<close>

datatype auth_event =
    LogWarning string
  | LogInfo AuthType
  | EmitAuthType AuthType
  | DeleteLater

definition DetermineAuthTypeJob_finished :: "string option \<Rightarrow> auth_event list" where
  "DetermineAuthTypeJob_finished wwwAuthenticate =
     (let authChallenge = toLower (rawHeader wwwAuthenticate);
          result = (if sublist ''bearer '' authChallenge then OAuth else Basic);
          warning = (if \<not> sublist ''bearer '' authChallenge \<and> authChallenge = []
                     then [LogWarning ''Did not receive WWW-Authenticate reply to auth-test PROPFIND'']
                     else [])
      in warning @ [LogInfo result, EmitAuthType result, DeleteLater])"

fun isEmitAuthType :: "auth_event \<Rightarrow> bool" where
  "isEmitAuthType (EmitAuthType t) = True"
| "isEmitAuthType _ = False"

section \<open>\<open>PropfindJob::finished\<close>\<close>

text \<open>
  \<open>skipCurrentElement()\<close> reads on to the end of the current element:
  \<^verbatim>\<open>
  int depth = 1;
  while (depth && readNext() != Invalid) {
      if (isEndElement()) --depth;
      else if (isStartElement()) ++depth;
  }
  \<close>
  and \<open>readElementText(SkipChildElements)\<close> is \<open>readElementText()\<close> that skips a child
  element where the default raises an error, and that reads on at the tokens the default
  would refuse.
\<close>

fun skipCurrentElement_loop :: "nat \<Rightarrow> token \<Rightarrow> token list \<Rightarrow> reader" where
  "skipCurrentElement_loop 0 c ts = (c, ts)"
| "skipCurrentElement_loop (Suc d) c [] = (Invalid, [])"
| "skipCurrentElement_loop (Suc d) c (Invalid # ts) = (Invalid, ts)"
| "skipCurrentElement_loop (Suc d) c (EndDocument # ts) = (Invalid, ts)"
| "skipCurrentElement_loop (Suc d) c (EndElement ns n # ts) = skipCurrentElement_loop d (EndElement ns n) ts"
| "skipCurrentElement_loop (Suc d) c (StartElement ns n # ts) =
     skipCurrentElement_loop (Suc (Suc d)) (StartElement ns n) ts"
| "skipCurrentElement_loop (Suc d) c (t # ts) = skipCurrentElement_loop (Suc d) t ts"

definition skipCurrentElement :: "reader \<Rightarrow> reader" where
  "skipCurrentElement r =
     (if fst r = Invalid \<or> fst r = EndDocument then (Invalid, snd r)
      else skipCurrentElement_loop 1 (fst r) (snd r))"

lemma skipCurrentElement_loop_length:
  "length (snd (skipCurrentElement_loop d c ts)) \<le> length ts"
  by (induction d c ts rule: skipCurrentElement_loop.induct) auto

lemma skipCurrentElement_length: "length (snd (skipCurrentElement r)) \<le> length (snd r)"
  using skipCurrentElement_loop_length [of 1 "fst r" "snd r"]
  by (simp add: skipCurrentElement_def)

function readElementText_SkipChildElements_loop :: "token list \<Rightarrow> string \<Rightarrow> string \<times> reader" where
  "readElementText_SkipChildElements_loop [] result = (result, (Invalid, []))"
| "readElementText_SkipChildElements_loop (Characters x # ts) result =
     readElementText_SkipChildElements_loop ts (result @ x)"
| "readElementText_SkipChildElements_loop (EntityReference n x # ts) result =
     readElementText_SkipChildElements_loop ts (result @ x)"
| "readElementText_SkipChildElements_loop (EndElement ns n # ts) result = (result, (EndElement ns n, ts))"
| "readElementText_SkipChildElements_loop (ProcessingInstruction x # ts) result =
     readElementText_SkipChildElements_loop ts result"
| "readElementText_SkipChildElements_loop (Comment x # ts) result =
     readElementText_SkipChildElements_loop ts result"
| "readElementText_SkipChildElements_loop (StartElement ns n # ts) result =
     (if fst (skipCurrentElement (StartElement ns n, ts)) = Invalid
      then (result, skipCurrentElement (StartElement ns n, ts))
      else readElementText_SkipChildElements_loop (snd (skipCurrentElement (StartElement ns n, ts))) result)"
| "readElementText_SkipChildElements_loop (Invalid # ts) result = (result, (Invalid, ts))"
| "readElementText_SkipChildElements_loop (EndDocument # ts) result = (result, (Invalid, ts))"
| "readElementText_SkipChildElements_loop (NoToken # ts) result =
     readElementText_SkipChildElements_loop ts result"
| "readElementText_SkipChildElements_loop (StartDocument # ts) result =
     readElementText_SkipChildElements_loop ts result"
| "readElementText_SkipChildElements_loop (DTD x # ts) result =
     readElementText_SkipChildElements_loop ts result"
  by pat_completeness auto
termination
proof (relation "measure (\<lambda>(ts, result). length ts)")
  fix ns n ts and result :: string
  show "((snd (skipCurrentElement (StartElement ns n, ts)), result), (StartElement ns n # ts, result))
        \<in> measure (\<lambda>(ts, result). length ts)"
    using skipCurrentElement_length [of "(StartElement ns n, ts)"] by simp
qed simp_all

definition readElementText_SkipChildElements :: "reader \<Rightarrow> string \<times> reader" where
  "readElementText_SkipChildElements r =
     (if isStartElement (fst r) then readElementText_SkipChildElements_loop (snd r) [] else ([], r))"

lemma readElementText_SkipChildElements_loop_length:
  "length (snd (snd (readElementText_SkipChildElements_loop ts acc))) \<le> length ts"
proof (induction ts acc rule: readElementText_SkipChildElements_loop.induct)
  case (7 ns n ts result)
  then show ?case
    using skipCurrentElement_length [of "(StartElement ns n, ts)"] by (auto simp: le_SucI)
qed auto

text \<open>
  \<^verbatim>\<open>
  QVariantMap items;
  QStack<QString> curElement;
  while (!reader.atEnd()) {
      QXmlStreamReader::TokenType type = reader.readNext();
      if (type == QXmlStreamReader::StartElement) {
          if (!curElement.isEmpty() && curElement.top() == QLatin1String("prop")) {
              items.insert(reader.name().toString(), reader.readElementText(QXmlStreamReader::SkipChildElements));
          } else {
              curElement.push(reader.name().toString());
          }
      }
      if (type == QXmlStreamReader::EndElement) {
          if (curElement.top() == reader.name()) { curElement.pop(); }
      }
  }
  if (reader.hasError()) { emit finishedWithError(reply()); } else { emit result(items); }
  \<close>
  The stack is a list with its top at the head. \<open>top()\<close> of an empty stack has no defined
  result; the model answers \<open>None\<close> there, for the iteration and for the whole call.
\<close>

datatype propfind_signal = Result "string \<rightharpoonup> string" | PropfindFinishedWithError

definition PropfindJob_iteration ::
  "reader \<Rightarrow> (string \<rightharpoonup> string) \<Rightarrow> string list
     \<Rightarrow> (reader \<times> (string \<rightharpoonup> string) \<times> string list) option" where
  "PropfindJob_iteration r items curElement =
     (case (if isStartElement (fst r)
            then (if curElement \<noteq> [] \<and> hd curElement = ''prop''
                  then (case readElementText_SkipChildElements r of
                          (x, r') \<Rightarrow> (r', items(name (fst r) \<mapsto> x), curElement))
                  else (r, items, name (fst r) # curElement))
            else (r, items, curElement)) of
        (r1, items1, curElement1) \<Rightarrow>
          if isEndElement (fst r)
          then (if curElement1 = [] then None
                else if hd curElement1 = name (fst r1) then Some (r1, items1, tl curElement1)
                else Some (r1, items1, curElement1))
          else Some (r1, items1, curElement1))"

lemma PropfindJob_iteration_length:
  "PropfindJob_iteration r items st = Some (r', items', st') \<Longrightarrow> length (snd r') \<le> length (snd r)"
  using readElementText_SkipChildElements_loop_length [of "snd r" "[]"]
  by (auto simp: PropfindJob_iteration_def readElementText_SkipChildElements_def
      split: if_splits prod.splits)

lemma PropfindJob_iteration_atEnd:
  "atEnd r \<Longrightarrow> PropfindJob_iteration r items st = Some (r', items', st') \<Longrightarrow> r' = r"
  by (cases "fst r") (auto simp: PropfindJob_iteration_def atEnd_def)

function PropfindJob_loop ::
  "reader \<Rightarrow> (string \<rightharpoonup> string) \<Rightarrow> string list \<Rightarrow> (reader \<times> (string \<rightharpoonup> string)) option" where
  "PropfindJob_loop r items curElement =
     (if atEnd r then Some (r, items)
      else case PropfindJob_iteration (readNext r) items curElement of
             None \<Rightarrow> None
           | Some (r', items', curElement') \<Rightarrow> PropfindJob_loop r' items' curElement')"
  by pat_completeness auto
termination
proof (relation "measure (\<lambda>(r, items, st). length (snd r) + (if atEnd r then 0 else 1))")
  show "wf (measure (\<lambda>(r, items, st). length (snd r) + (if atEnd r then 0 else 1)))"
    by simp
next
  fix r :: reader and items :: "string \<rightharpoonup> string" and curElement :: "string list"
    and x2 r' y items' st'
  assume ne: "\<not> atEnd r"
    and it: "PropfindJob_iteration (readNext r) items curElement = Some x2"
    and x2: "(r', y) = x2" and y: "(items', st') = y"
  from it x2 y have it': "PropfindJob_iteration (readNext r) items curElement = Some (r', items', st')"
    by simp
  have len: "length (snd r') \<le> length (snd (readNext r))"
    using it' by (rule PropfindJob_iteration_length)
  have stay: "atEnd (readNext r) \<longrightarrow> r' = readNext r"
    using it' by (auto dest: PropfindJob_iteration_atEnd)
  from readNext_measure [OF ne len stay]
  show "((r', items', st'), (r, items, curElement))
        \<in> measure (\<lambda>(r, items, st). length (snd r) + (if atEnd r then 0 else 1))"
    by simp
qed

definition PropfindJob_finished :: "int \<Rightarrow> token list \<Rightarrow> propfind_signal list option" where
  "PropfindJob_finished http_result_code body =
     (if http_result_code = 207
      then (case PropfindJob_loop (NoToken, body) Map.empty [] of
              None \<Rightarrow> None
            | Some (r, items) \<Rightarrow>
                if hasError r then Some [PropfindFinishedWithError] else Some [Result items])
      else Some [PropfindFinishedWithError])"

section \<open>\<open>ProppatchJob::start\<close>\<close>

text \<open>
  The request body. The property map is given by its entries in the order in which the
  \<open>QMap\<close> iterates over them.
  \<^verbatim>\<open>
  QByteArray keyName = it.key();
  QByteArray keyNs;
  if (keyName.contains(':')) {
      int colIdx = keyName.lastIndexOf(":");
      keyNs = keyName.left(colIdx);
      keyName = keyName.mid(colIdx + 1);
  }
  propStr += "    <" + keyName;
  if (!keyNs.isEmpty()) { propStr += " xmlns=\"" + keyNs + "\" "; }
  propStr += ">";
  propStr += it.value();
  propStr += "</" + keyName + ">\n";
  ...
  QByteArray xml = "<?xml version=\"1.0\" ?>\n"
                   "<d:propertyupdate xmlns:d=\"DAV:\">\n"
                   "  <d:set><d:prop>\n"
      + propStr + "  </d:prop></d:set>\n"
                  "</d:propertyupdate>\n";
  \<close>
\<close>

definition lastIndexOf :: "char \<Rightarrow> string \<Rightarrow> nat" where
  "lastIndexOf c s = length s - 1 - length (takeWhile (\<lambda>x. x \<noteq> c) (rev s))"

definition keyNs :: "string \<Rightarrow> string" where
  "keyNs key = (if CHR '':'' \<in> set key then take (lastIndexOf CHR '':'' key) key else [])"

definition keyName :: "string \<Rightarrow> string" where
  "keyName key = (if CHR '':'' \<in> set key then drop (lastIndexOf CHR '':'' key + 1) key else key)"

definition ProppatchJob_property :: "string \<times> string \<Rightarrow> string" where
  \<open>ProppatchJob_property kv =
     ''    <'' @ keyName (fst kv)
     @ (if keyNs (fst kv) \<noteq> [] then '' xmlns="'' @ keyNs (fst kv) @ ''" '' else [])
     @ ''>'' @ snd kv @ ''</'' @ keyName (fst kv) @ [CHR ''>'', CHR 0x0A]\<close>

definition ProppatchJob_body :: "(string \<times> string) list \<Rightarrow> string" where
  \<open>ProppatchJob_body properties =
     ''<?xml version="1.0" ?>'' @ [CHR 0x0A]
     @ ''<d:propertyupdate xmlns:d="DAV:">'' @ [CHR 0x0A]
     @ ''  <d:set><d:prop>'' @ [CHR 0x0A]
     @ concat (map ProppatchJob_property properties)
     @ ''  </d:prop></d:set>'' @ [CHR 0x0A]
     @ ''</d:propertyupdate>'' @ [CHR 0x0A]\<close>

section \<open>From bytes to tokens\<close>

text \<open>
  To read a body that the client itself has written, the bytes have to be turned into the
  tokens of \<open>QXmlStreamReader\<close>, a class of the Qt library. \<open>xml_tokens\<close> does so, after
  the XML 1.0 and Namespaces in XML recommendations that the class implements, for a
  fragment of XML in ASCII: an optional XML declaration that gives the version 1.0 and
  nothing else, one root element, start tags with attributes in double quotes, end tags,
  empty-element tags, namespace declarations and prefixes, and character data of
  printable ASCII, tab and line feed without references. Inside the root every maximal
  run of character data is one \<open>Characters\<close> token, white space included; white space
  around the root is not reported; attributes other than namespace declarations are
  checked and leave nothing in the tokens, since no reader of this file looks at them.
  The namespaces in force at the start are those the caller gives the reader with
  \<open>addExtraNamespaceDeclaration\<close>.

  \<open>None\<close> says that \<open>xml_tokens\<close> gives no tokens for the input: the document is not
  well-formed, or it lies outside the fragment (comments, processing instructions, CDATA
  sections, references, single quotes, the prefixes \<open>xml\<close> and \<open>xmlns\<close>, prefixed
  attributes, carriage returns, bytes beyond ASCII). Nothing is stated about the reader
  on such an input.
\<close>

definition isLetter :: "char \<Rightarrow> bool" where
  "isLetter c = ((65 \<le> (of_char c :: nat) \<and> (of_char c :: nat) \<le> 90)
                 \<or> (97 \<le> (of_char c :: nat) \<and> (of_char c :: nat) \<le> 122))"

definition isNameStartChar :: "char \<Rightarrow> bool" where
  "isNameStartChar c = (isLetter c \<or> c = CHR ''_'')"

definition isNameChar :: "char \<Rightarrow> bool" where
  "isNameChar c = (isLetter c \<or> isDigit c \<or> c = CHR ''_'' \<or> c = CHR ''-'' \<or> c = CHR ''.'')"

definition isTextChar :: "char \<Rightarrow> bool" where
  "isTextChar c = (((of_char c :: nat) = 9 \<or> (of_char c :: nat) = 10
                    \<or> (32 \<le> (of_char c :: nat) \<and> (of_char c :: nat) \<le> 126))
                   \<and> c \<noteq> CHR ''<'' \<and> c \<noteq> CHR ''&'')"

definition isAttributeChar :: "char \<Rightarrow> bool" where
  \<open>isAttributeChar c = (isTextChar c \<and> c \<noteq> CHR ''"'' \<and> c \<noteq> CHR ''>''
                         \<and> c \<noteq> CHR 0x09 \<and> c \<noteq> CHR 0x0A)\<close>

definition validNCName :: "string \<Rightarrow> bool" where
  "validNCName n = (n \<noteq> [] \<and> isNameStartChar (hd n) \<and> list_all isNameChar n)"

definition qnamePrefix :: "string \<Rightarrow> string" where
  "qnamePrefix q = (if CHR '':'' \<in> set q then takeWhile (\<lambda>c. c \<noteq> CHR '':'') q else [])"

definition localName :: "string \<Rightarrow> string" where
  "localName q = (if CHR '':'' \<in> set q then tl (dropWhile (\<lambda>c. c \<noteq> CHR '':'') q) else q)"

definition validQName :: "string \<Rightarrow> bool" where
  "validQName q = (validNCName (localName q) \<and> (CHR '':'' \<in> set q \<longrightarrow> validNCName (qnamePrefix q)))"

type_synonym ns_env = "(string \<times> string) list"

definition declarations :: "(string \<times> string) list \<Rightarrow> ns_env" where
  "declarations attrs =
     concat (map (\<lambda>(n, v). if n = ''xmlns'' then [([], v)]
                             else if prefix ''xmlns:'' n then [(drop 6 n, v)] else []) attrs)"

text \<open>
  The attributes of one start tag have distinct names. A namespace declaration must not
  bind the namespace names reserved for \<open>xml\<close> and \<open>xmlns\<close>, a declaration with a prefix
  must not be empty, and the reader raises \<open>Illegal namespace declaration\<close> otherwise.
\<close>

definition reservedNamespaces :: "string set" where
  "reservedNamespaces = {''http://www.w3.org/2000/xmlns/'', ''http://www.w3.org/XML/1998/namespace''}"

definition legalAttributes :: "(string \<times> string) list \<Rightarrow> bool" where
  "legalAttributes attrs =
     (distinct (map fst attrs)
      \<and> list_all (\<lambda>(n, v). if n = ''xmlns'' then v \<notin> reservedNamespaces
                           else if prefix ''xmlns:'' n
                           then drop 6 n \<noteq> ''xml'' \<and> drop 6 n \<noteq> ''xmlns'' \<and> v \<noteq> []
                                \<and> v \<notin> reservedNamespaces
                           else CHR '':'' \<notin> set n) attrs)"

definition resolve :: "ns_env \<Rightarrow> string \<Rightarrow> string option" where
  "resolve env q =
     (if CHR '':'' \<in> set q then map_of env (qnamePrefix q)
      else Some (case map_of env [] of None \<Rightarrow> [] | Some u \<Rightarrow> u))"

function parse_attributes :: "string \<Rightarrow> (string \<times> string) list option" where
  \<open>parse_attributes s =
     (if s = [] then Some []
      else if \<not> isSpace (hd s) then None
      else if dropWhile isSpace s = [] then Some []
      else (case dropWhile (\<lambda>c. c \<noteq> CHR ''='') (dropWhile isSpace s) of
              e # q # r \<Rightarrow>
                if q = CHR ''"''
                   \<and> validQName (takeWhile (\<lambda>c. c \<noteq> CHR ''='') (dropWhile isSpace s))
                   \<and> list_all isAttributeChar (takeWhile (\<lambda>c. c \<noteq> CHR ''"'') r)
                   \<and> dropWhile (\<lambda>c. c \<noteq> CHR ''"'') r \<noteq> []
                then map_option
                       ((#) (takeWhile (\<lambda>c. c \<noteq> CHR ''='') (dropWhile isSpace s),
                             takeWhile (\<lambda>c. c \<noteq> CHR ''"'') r))
                       (parse_attributes (tl (dropWhile (\<lambda>c. c \<noteq> CHR ''"'') r)))
                else None
            | _ \<Rightarrow> None))\<close>
  by pat_completeness auto
termination
proof (relation "measure length")
  fix s :: string and e q :: char and r x22 :: string
  assume "s \<noteq> []" and d: "dropWhile (\<lambda>c. c \<noteq> CHR ''='') (dropWhile isSpace s) = e # x22"
    and x: "x22 = q # r"
  have "length (tl (dropWhile (\<lambda>c. c \<noteq> CHR 0x22) r))
          \<le> length (dropWhile (\<lambda>c. c \<noteq> CHR 0x22) r)"
    by simp
  also have "\<dots> \<le> length r" by (rule length_dropWhile_le)
  also have "length r < length (dropWhile (\<lambda>c. c \<noteq> CHR ''='') (dropWhile isSpace s))"
    using d x by simp
  also have "\<dots> \<le> length (dropWhile isSpace s)" by (rule length_dropWhile_le)
  also have "\<dots> \<le> length s" by (rule length_dropWhile_le)
  finally show "(tl (dropWhile (\<lambda>c. c \<noteq> CHR 0x22) r), s) \<in> measure length" by simp
qed simp

declare parse_attributes.simps [simp del]

definition isQNameChar :: "char \<Rightarrow> bool" where
  "isQNameChar c = (isNameChar c \<or> c = CHR '':'')"

function xml_content :: "(string \<times> ns_env) list \<Rightarrow> ns_env \<Rightarrow> bool \<Rightarrow> string \<Rightarrow> token list option" where
  "xml_content open env seen [] = (if open = [] \<and> seen then Some [EndDocument] else None)"
| "xml_content open env seen (c # cs) =
     (if c = CHR ''<'' then
        (if dropWhile (\<lambda>x. x \<noteq> CHR ''>'') cs = [] then None
         else if takeWhile (\<lambda>x. x \<noteq> CHR ''>'') cs \<noteq> [] \<and> hd (takeWhile (\<lambda>x. x \<noteq> CHR ''>'') cs) = CHR ''/'' then
           (case open of
              [] \<Rightarrow> None
            | (q, env') # open' \<Rightarrow>
                if rev (dropWhile isSpace (rev (tl (takeWhile (\<lambda>x. x \<noteq> CHR ''>'') cs)))) = q
                then (case resolve env q of
                        None \<Rightarrow> None
                      | Some ns \<Rightarrow>
                          map_option ((#) (EndElement ns (localName q)))
                            (xml_content open' env' seen (tl (dropWhile (\<lambda>x. x \<noteq> CHR ''>'') cs))))
                else None)
         else
           (let tag = takeWhile (\<lambda>x. x \<noteq> CHR ''>'') cs;
                q = takeWhile isQNameChar tag;
                after = dropWhile isQNameChar tag;
                empty = (after \<noteq> [] \<and> last after = CHR ''/'')
            in if (open = [] \<and> seen) \<or> \<not> validQName q then None
               else (case parse_attributes (if empty then butlast after else after) of
                       None \<Rightarrow> None
                     | Some attrs \<Rightarrow>
                         if \<not> legalAttributes attrs then None
                         else
                         (case resolve (declarations attrs @ env) q of
                            None \<Rightarrow> None
                          | Some ns \<Rightarrow>
                              if empty
                              then map_option
                                     (\<lambda>ts. StartElement ns (localName q) # EndElement ns (localName q) # ts)
                                     (xml_content open env True (tl (dropWhile (\<lambda>x. x \<noteq> CHR ''>'') cs)))
                              else map_option ((#) (StartElement ns (localName q)))
                                     (xml_content ((q, env) # open) (declarations attrs @ env) True
                                        (tl (dropWhile (\<lambda>x. x \<noteq> CHR ''>'') cs)))))))
      else
        (if open = [] then
           (if list_all isSpace (takeWhile (\<lambda>x. x \<noteq> CHR ''<'') (c # cs))
            then xml_content open env seen (dropWhile (\<lambda>x. x \<noteq> CHR ''<'') cs) else None)
         else if list_all isTextChar (takeWhile (\<lambda>x. x \<noteq> CHR ''<'') (c # cs))
                 \<and> \<not> sublist '']]>'' (takeWhile (\<lambda>x. x \<noteq> CHR ''<'') (c # cs))
         then map_option ((#) (Characters (takeWhile (\<lambda>x. x \<noteq> CHR ''<'') (c # cs))))
                (xml_content open env seen (dropWhile (\<lambda>x. x \<noteq> CHR ''<'') cs))
         else None))"
  by pat_completeness auto
termination
  by (relation "measure (\<lambda>(open, env, seen, s). length s)")
     (auto simp: length_dropWhile_le le_imp_less_Suc intro: le_trans [OF diff_le_self]
           le_less_trans [OF diff_le_self])

declare xml_content.simps(2) [simp del]

text \<open>The XML declaration: the text between \<open><?xml\<close> and \<open>?>\<close>, and what follows it.\<close>

fun split_declaration :: "string \<Rightarrow> (string \<times> string) option" where
  "split_declaration [] = None"
| "split_declaration [c] = None"
| "split_declaration (c # d # cs) =
     (if c = CHR ''?'' \<and> d = CHR ''>'' then Some ([], cs)
      else map_option (\<lambda>(a, r). (c # a, r)) (split_declaration (d # cs)))"

definition after_declaration :: "string \<Rightarrow> string option" where
  "after_declaration input =
     (if prefix ''<?xml'' input
      then (case split_declaration (drop 5 input) of
              None \<Rightarrow> None
            | Some (a, rest) \<Rightarrow>
                if parse_attributes a = Some [(''version'', ''1.0'')] then Some rest else None)
      else Some input)"

definition xml_tokens :: "ns_env \<Rightarrow> string \<Rightarrow> token list option" where
  "xml_tokens extra input =
     (case after_declaration input of
        None \<Rightarrow> None
      | Some rest \<Rightarrow> map_option ((#) StartDocument) (xml_content [] extra False rest))"

section \<open>XML documents\<close>

text \<open>
  The claims speak of documents, elements and their text. A document is a tree; the reader
  delivers it as the token list \<open>document_tokens\<close>.
\<close>

datatype xml =
    Element string string "xml list"
  | Text string
  | CommentNode string

fun tokens_of :: "xml \<Rightarrow> token list" where
  "tokens_of (Element ns n cs) = StartElement ns n # concat (map tokens_of cs) @ [EndElement ns n]"
| "tokens_of (Text x) = [Characters x]"
| "tokens_of (CommentNode x) = [Comment x]"

definition document_tokens :: "xml \<Rightarrow> token list" where
  "document_tokens root = StartDocument # tokens_of root @ [EndDocument]"

fun isElement :: "xml \<Rightarrow> bool" where
  "isElement (Element ns n cs) = True"
| "isElement _ = False"

text \<open>The character data directly inside an element, in document order.\<close>

fun element_text :: "xml list \<Rightarrow> string" where
  "element_text [] = []"
| "element_text (Text x # cs) = x @ element_text cs"
| "element_text (c # cs) = element_text cs"

text \<open>The entity tag that one \<open>getetag\<close> element contributes: its normalized text, or its
  raw text when normalization leaves nothing.\<close>

definition etag_of_text :: "string \<Rightarrow> string" where
  "etag_of_text x = (if parseEtag x \<noteq> [] then parseEtag x else x)"

text \<open>The concatenation, in document order, over all \<open>getetag\<close> elements in the
  \<open>DAV:\<close> namespace of a document.\<close>

fun getetags :: "xml \<Rightarrow> string" where
  "getetags (Element ns n cs) =
     (if ns = ''DAV:'' \<and> n = ''getetag'' then etag_of_text (element_text cs) else [])
     @ concat (map getetags cs)"
| "getetags (Text x) = []"
| "getetags (CommentNode x) = []"

text \<open>Every \<open>DAV:getetag\<close> element of the document holds character data (and comments)
  only, no child element.\<close>

fun getetags_flat :: "xml \<Rightarrow> bool" where
  "getetags_flat (Element ns n cs) =
     ((ns = ''DAV:'' \<and> n = ''getetag'' \<longrightarrow> \<not> list_ex isElement cs) \<and> list_all getetags_flat cs)"
| "getetags_flat (Text x) = True"
| "getetags_flat (CommentNode x) = True"

section \<open>Multistatus documents\<close>

text \<open>
  A multistatus body as WebDAV lays it out: a \<open>multistatus\<close> root with one \<open>response\<close>
  per resource; a response holds its \<open>href\<close> and any number of \<open>propstat\<close> blocks; a
  block holds a \<open>prop\<close> element with the properties and a \<open>status\<close> line. A property
  is an element of any name with any content.
\<close>

datatype property = Property (prop_ns: string) (prop_name: string) (prop_content: "xml list")
datatype propstat = Propstat (ps_props: "property list") (ps_status: string)
datatype response = Response (resp_href: string) (resp_propstats: "propstat list")

fun property_xml :: "property \<Rightarrow> xml" where
  "property_xml (Property ns n cs) = Element ns n cs"

text \<open>Between the elements of a body there may be white space and comments: \<open>ws\<close>, a
  list of nodes none of which is an element, stands before every child and before every
  end tag of the layout (\<open>ws = []\<close> is the compact body).\<close>

definition pad :: "xml list \<Rightarrow> xml list \<Rightarrow> xml list" where
  "pad ws cs = concat (map (\<lambda>c. ws @ [c]) cs) @ ws"

definition ignorable :: "xml list \<Rightarrow> bool" where
  "ignorable ws = list_all (\<lambda>x. \<not> isElement x) ws"

fun propstat_xml :: "xml list \<Rightarrow> propstat \<Rightarrow> xml" where
  "propstat_xml ws (Propstat ps st) =
     Element ''DAV:'' ''propstat''
       (pad ws [Element ''DAV:'' ''prop'' (pad ws (map property_xml ps)),
                Element ''DAV:'' ''status'' [Text st]])"

fun response_xml :: "xml list \<Rightarrow> response \<Rightarrow> xml" where
  "response_xml ws (Response h bs) =
     Element ''DAV:'' ''response''
       (pad ws (Element ''DAV:'' ''href'' [Text h] # map (propstat_xml ws) bs))"

definition multistatus_xml :: "xml list \<Rightarrow> response list \<Rightarrow> xml" where
  "multistatus_xml ws rs = Element ''DAV:'' ''multistatus'' (pad ws (map (response_xml ws) rs))"

text \<open>The text of a property: its content with the markup flattened, start and end tags
  by their local names, without attributes; comments leave nothing.\<close>

fun xml_string :: "xml \<Rightarrow> string" where
  "xml_string (Element ns n cs) = ''<'' @ n @ ''>'' @ concat (map xml_string cs) @ ''</'' @ n @ ''>''"
| "xml_string (Text x) = x"
| "xml_string (CommentNode x) = []"

definition property_value :: "property \<Rightarrow> string" where
  "property_value p = concat (map xml_string (prop_content p))"

text \<open>The names of the multistatus grammar itself. A property so named would be taken
  by the parser for the grammar element.\<close>

definition reserved_name :: "property \<Rightarrow> bool" where
  "reserved_name p = (prop_ns p = ''DAV:'' \<and> prop_name p \<in> {''href'', ''status'', ''prop'', ''multistatus''})"

text \<open>What the parser derives from one property: the folder classification, the size,
  the entry of the property mapping.\<close>

definition is_collection :: "property \<Rightarrow> bool" where
  "is_collection p = (prop_name p = ''resourcetype'' \<and> sublist ''collection'' (property_value p))"

definition record_size :: "string \<Rightarrow> property \<Rightarrow> (string \<rightharpoonup> int) \<Rightarrow> (string \<rightharpoonup> int)" where
  "record_size h p m =
     (if prop_name p = ''size''
      then (case toLongLong (property_value p) of None \<Rightarrow> m | Some n \<Rightarrow> m(h \<mapsto> n))
      else m)"

definition insert_property :: "property \<Rightarrow> (string \<rightharpoonup> string) \<Rightarrow> (string \<rightharpoonup> string)" where
  "insert_property p m = m(prop_name p \<mapsto> property_value p)"

text \<open>The same response with other status lines: \<open>f\<close> gives each block its new one.\<close>

definition with_status :: "(propstat \<Rightarrow> string) \<Rightarrow> response \<Rightarrow> response" where
  "with_status f r = Response (resp_href r) (map (\<lambda>b. Propstat (ps_props b) (f b)) (resp_propstats r))"

text \<open>The parser state after a property, after a block and after a response.\<close>

definition property_state :: "property \<Rightarrow> lscol_state \<Rightarrow> lscol_state" where
  "property_state p s =
     s\<lparr>folders := folders s @ (if is_collection p then [currentHref s] else []),
       sizes := map_option (record_size (currentHref s) p) (sizes s),
       currentTmpProperties := insert_property p (currentTmpProperties s)\<rparr>"

text \<open>The property mapping of a block; the published mapping of a response is that of
  its last block whose status line starts with \<open>HTTP/1.1 200\<close>, and empty when there is
  none.\<close>

definition block_properties :: "propstat \<Rightarrow> (string \<rightharpoonup> string)" where
  "block_properties b = fold insert_property (ps_props b) Map.empty"

definition is_http200 :: "propstat \<Rightarrow> bool" where
  "is_http200 b = prefix ''HTTP/1.1 200'' (ps_status b)"

definition published_properties :: "response \<Rightarrow> (string \<rightharpoonup> string)" where
  "published_properties r =
     (if filter is_http200 (resp_propstats r) = [] then Map.empty
      else block_properties (last (filter is_http200 (resp_propstats r))))"

definition response_href :: "response \<Rightarrow> string" where
  "response_href r = fromPercentEncoding (resp_href r)"

definition response_properties :: "response \<Rightarrow> property list" where
  "response_properties r = concat (map ps_props (resp_propstats r))"

definition response_folders :: "response \<Rightarrow> string list" where
  "response_folders r = map (\<lambda>p. response_href r) (filter is_collection (response_properties r))"

definition response_sizes :: "response \<Rightarrow> (string \<rightharpoonup> int) \<Rightarrow> (string \<rightharpoonup> int)" where
  "response_sizes r = fold (record_size (response_href r)) (response_properties r)"

definition response_entry :: "response \<Rightarrow> lscol_signal" where
  "response_entry r = DirectoryListingIterated (chopSlash (response_href r)) (published_properties r)"

definition well_formed_response :: "response \<Rightarrow> bool" where
  "well_formed_response r = list_all (\<lambda>p. \<not> reserved_name p) (response_properties r)"

definition propstat_state :: "propstat \<Rightarrow> lscol_state \<Rightarrow> lscol_state" where
  "propstat_state b s =
     s\<lparr>folders := folders s @ map (\<lambda>p. currentHref s) (filter is_collection (ps_props b)),
       sizes := map_option (fold (record_size (currentHref s)) (ps_props b)) (sizes s),
       insideProp := False,
       insidePropstat := False,
       currentHttp200Properties :=
         (if is_http200 b then fold insert_property (ps_props b) (currentTmpProperties s)
          else currentHttp200Properties s),
       currentTmpProperties := Map.empty,
       currentPropsHaveHttp200 := False\<rparr>"

text \<open>The state between two blocks: outside \<open>propstat\<close> and \<open>prop\<close>, nothing
  collected.\<close>

definition idle :: "lscol_state \<Rightarrow> bool" where
  "idle s = (\<not> insidePropstat s \<and> \<not> insideProp s \<and> currentTmpProperties s = Map.empty
             \<and> \<not> currentPropsHaveHttp200 s)"

definition last_http200 :: "propstat list \<Rightarrow> (string \<rightharpoonup> string) \<Rightarrow> (string \<rightharpoonup> string)" where
  "last_http200 bs m =
     (if filter is_http200 bs = [] then m else block_properties (last (filter is_http200 bs)))"

definition response_state :: "response \<Rightarrow> lscol_state \<Rightarrow> lscol_state" where
  "response_state r s =
     s\<lparr>folders := folders s @ response_folders r,
       sizes := map_option (response_sizes r) (sizes s),
       emitted := emitted s @ [response_entry r],
       currentHref := [],
       currentHttp200Properties := Map.empty\<rparr>"

definition initial_state :: "(string \<rightharpoonup> int) option \<Rightarrow> lscol_state" where
  "initial_state sz =
     \<lparr>folders = [], currentHref = [], currentTmpProperties = Map.empty,
      currentHttp200Properties = Map.empty, currentPropsHaveHttp200 = False,
      insidePropstat = False, insideProp = False, insideMultiStatus = False,
      sizes = sz, emitted = []\<rparr>"

text \<open>
  The reader and the state after \<open>n\<close> turns of the parser's loop: \<open>None\<close> when the loop has
  ended before, at the end of the input or by returning false.
\<close>

fun LsCol_steps :: "string \<Rightarrow> nat \<Rightarrow> reader \<Rightarrow> lscol_state \<Rightarrow> (reader \<times> lscol_state) option" where
  "LsCol_steps expectedPath 0 r s = Some (r, s)"
| "LsCol_steps expectedPath (Suc n) r s =
     (if atEnd r then None
      else case LsCol_iteration expectedPath (readNext r) s of
             (f, r', s') \<Rightarrow> if f = ReturnFalse then None else LsCol_steps expectedPath n r' s')"

section \<open>From \<open>ProppatchJob\<close> to \<open>PropfindJob\<close>\<close>

text \<open>
  The body that \<open>ProppatchJob::start\<close> sends, read back by the loop of
  \<open>PropfindJob::finished\<close>: the bytes are turned into the reader's tokens, and the tokens
  are given to the loop with the status 207. The reader is the one that
  \<open>PropfindJob::finished\<close> sets up:
  \<^verbatim>\<open>
  QXmlStreamReader reader(reply());
  reader.addExtraNamespaceDeclaration(
      QXmlStreamNamespaceDeclaration(QStringLiteral("d"), QStringLiteral("DAV:")));
  \<close>
  The keys of the original map are byte strings and those of the result are strings; on
  ASCII, to which the tokens are confined, the two are the same.
\<close>

definition PropfindJob_extraNamespaceDeclarations :: ns_env where
  "PropfindJob_extraNamespaceDeclarations = [(''d'', ''DAV:'')]"

definition ProppatchJob_PropfindJob_round_trip :: "(string \<times> string) list \<Rightarrow> propfind_signal list option" where
  "ProppatchJob_PropfindJob_round_trip properties =
     (case xml_tokens PropfindJob_extraNamespaceDeclarations (ProppatchJob_body properties) of
        None \<Rightarrow> None
      | Some ts \<Rightarrow> PropfindJob_finished 207 ts)"

text \<open>
  The tokens the reader is expected to deliver for a body: the document start, the three
  opening tags, and for each entry of the map the indentation, the start tag of the
  property in the namespace of the key, its value if there is one, and its end tag.
\<close>

fun property_tokens :: "(string \<times> string) list \<Rightarrow> token list" where
  "property_tokens [] =
     [Characters [CHR 0x0A, CHR '' '', CHR '' ''], EndElement ''DAV:'' ''prop'', EndElement ''DAV:'' ''set'',
      Characters [CHR 0x0A], EndElement ''DAV:'' ''propertyupdate'', EndDocument]"
| "property_tokens (kv # kvs) =
     Characters [CHR 0x0A, CHR '' '', CHR '' '', CHR '' '', CHR '' '']
     # StartElement (keyNs (fst kv)) (keyName (fst kv))
     # (if snd kv = [] then [] else [Characters (snd kv)])
     @ EndElement (keyNs (fst kv)) (keyName (fst kv))
     # property_tokens kvs"

definition ProppatchJob_tokens :: "(string \<times> string) list \<Rightarrow> token list" where
  "ProppatchJob_tokens properties =
     StartDocument # StartElement ''DAV:'' ''propertyupdate''
     # Characters [CHR 0x0A, CHR '' '', CHR '' '']
     # StartElement ''DAV:'' ''set'' # StartElement ''DAV:'' ''prop''
     # property_tokens properties"

text \<open>
  What the loop of \<open>PropfindJob::finished\<close> does with one entry: \<open>items.insert\<close> under
  \<open>reader.name()\<close>, the local name of the element, which is the part of the key after
  its last colon.
\<close>

definition insert_pair :: "string \<times> string \<Rightarrow> (string \<rightharpoonup> string) \<Rightarrow> (string \<rightharpoonup> string)" where
  "insert_pair kv m = m(keyName (fst kv) \<mapsto> snd kv)"

text \<open>An entry of the map with its key cut down to the local name.\<close>

definition local_entry :: "string \<times> string \<Rightarrow> string \<times> string" where
  "local_entry kv = (keyName (fst kv), snd kv)"

text \<open>
  Keys and values that the body builder can copy into the document as they are. The value
  is character data: printable ASCII, tab and line feed, without \<open><\<close> and \<open>&\<close> and
  without the sequence \<open>]]>\<close>. The part of the key after its last colon is a name: ASCII
  letters, digits, \<open>_\<close>, \<open>-\<close> and \<open>.\<close>, the first a letter or \<open>_\<close>. The part before the last
  colon can stand between double quotes as a namespace name: printable ASCII without
  \<open><\<close>, \<open>&\<close>, \<open>"\<close> and \<open>>\<close>, and none of the two reserved namespace names.
\<close>

definition plain_value :: "string \<Rightarrow> bool" where
  "plain_value v = (list_all isTextChar v \<and> \<not> sublist '']]>'' v)"

definition plain_key :: "string \<Rightarrow> bool" where
  "plain_key k = (validNCName (keyName k) \<and> list_all isAttributeChar (keyNs k)
                  \<and> keyNs k \<notin> reservedNamespaces)"

text \<open>
  The state of the tokenizer inside \<open><d:prop>\<close>: the namespace declarations in force and
  the open elements; and the text of the body after the last property.
\<close>

definition dav_env :: ns_env where
  "dav_env = (''d'', ''DAV:'') # PropfindJob_extraNamespaceDeclarations"

definition open_prop :: "(string \<times> ns_env) list" where
  "open_prop = [(''d:prop'', dav_env), (''d:set'', dav_env),
                (''d:propertyupdate'', PropfindJob_extraNamespaceDeclarations)]"

definition ProppatchJob_footer :: string where
  "ProppatchJob_footer = ''  </d:prop></d:set>'' @ [CHR 0x0A] @ ''</d:propertyupdate>'' @ [CHR 0x0A]"

section \<open>Properties of \<open>parseEtag\<close>\<close>

lemma QByteArray_replace_absent:
  "\<not> sublist p s \<Longrightarrow> QByteArray_replace p a s = s"
proof (induction s)
  case Nil
  then show ?case by simp
next
  case (Cons c cs)
  then show ?case by (auto simp: sublist_Cons_right)
qed

lemma gzip_no_straddle:
  assumes "\<not> prefix ''-gzip'' s" and "s \<noteq> []"
  shows "\<not> prefix ''-gzip'' (s @ ''-gzip'' @ t)"
proof
  assume "prefix ''-gzip'' (s @ ''-gzip'' @ t)"
  then have "prefix ''-gzip'' s \<or> (\<exists>us. ''-gzip'' = s @ us \<and> prefix us (''-gzip'' @ t))"
    by (rule prefix_append [THEN iffD1])
  then obtain us where us: "''-gzip'' = s @ us" "prefix us (''-gzip'' @ t)"
    using assms(1) by blast
  from us(1) assms(2) have "us \<in> {''gzip'', ''zip'', ''ip'', ''p'', []}"
    by (auto simp: Cons_eq_append_conv)
  with us(2) have "us = []" by auto
  with us(1) assms(1) show False by simp
qed

lemma QByteArray_replace_gzip_before:
  "\<not> sublist ''-gzip'' s \<Longrightarrow>
   QByteArray_replace ''-gzip'' [] (s @ ''-gzip'' @ t) = s @ QByteArray_replace ''-gzip'' [] t"
proof (induction s)
  case Nil
  then show ?case by simp
next
  case (Cons c cs)
  then have np: "\<not> prefix ''-gzip'' (c # cs)" and ns: "\<not> sublist ''-gzip'' cs"
    by (auto simp: sublist_Cons_right)
  from gzip_no_straddle [OF np, of t]
  have "\<not> (''-gzip'' \<noteq> [] \<and> prefix ''-gzip'' (c # (cs @ ''-gzip'' @ t)))"
    unfolding append_Cons by blast
  then have "QByteArray_replace ''-gzip'' [] (c # (cs @ ''-gzip'' @ t))
             = c # QByteArray_replace ''-gzip'' [] (cs @ ''-gzip'' @ t)"
    by (simp only: QByteArray_replace.simps if_False)
  with Cons.IH [OF ns] show ?case by (simp only: append_Cons)
qed

lemma no_gzip_quoted:
  assumes "\<not> sublist ''-gzip'' s"
  shows \<open>\<not> sublist ''-gzip'' (''"'' @ s @ ''"'')\<close>
proof
  assume \<open>sublist ''-gzip'' (''"'' @ s @ ''"'')\<close>
  then have "sublist ''-gzip'' (s @ [CHR 0x22])"
    by (simp add: sublist_Cons_right)
  then obtain a b where ab: "s @ [CHR 0x22] = a @ ''-gzip'' @ b"
    by (auto simp: sublist_def)
  show False
  proof (cases b rule: rev_cases)
    case Nil
    with ab show False by simp
  next
    case (snoc b' x)
    with ab have "s = a @ ''-gzip'' @ b'" by simp
    with assms show False by (auto simp: sublist_def)
  qed
qed

lemma suffix_snoc_Cons: "suffix [c] (x # s @ [c])"
  using suffixI [of "x # s @ [c]" "x # s" "[c]"] by simp

lemma parseEtag_weak_prefix: "\<not> prefix ''W/'' s \<Longrightarrow> parseEtag (''W/'' @ s) = parseEtag s"
  by (cases "s = []") (simp_all add: parseEtag_def Let_def)

lemma parseEtag_quoted: \<open>\<not> sublist ''-gzip'' s \<Longrightarrow> parseEtag (''"'' @ s @ ''"'') = s\<close>
  using QByteArray_replace_absent [OF no_gzip_quoted, of s "[]"]
  by (simp add: parseEtag_def Let_def suffix_snoc_Cons)

lemma sublist_drop_absent: "\<not> sublist p s \<Longrightarrow> \<not> sublist p (drop n s)"
  by (metis append_take_drop_id sublist_appendI sublist_order.order.trans suffix_imp_sublist suffix_drop)

lemma parseEtag_gzip_suffix: "\<not> sublist ''-gzip'' s \<Longrightarrow> parseEtag (s @ ''-gzip'') = parseEtag s"
proof -
  assume ns: "\<not> sublist ''-gzip'' s"
  have r1: "QByteArray_replace ''-gzip'' [] (s @ ''-gzip'') = s"
    using QByteArray_replace_gzip_before [OF ns, of "[]"] by simp
  have r2: "QByteArray_replace ''-gzip'' [] s = s"
    using QByteArray_replace_absent [OF ns] .
  have nd: "\<not> sublist ''-gzip'' (drop 2 s)" using ns by (rule sublist_drop_absent)
  have r3: "QByteArray_replace ''-gzip'' [] (drop 2 s @ ''-gzip'') = drop 2 s"
    using QByteArray_replace_gzip_before [OF nd, of "[]"] by simp
  have r4: "QByteArray_replace ''-gzip'' [] (drop 2 s) = drop 2 s"
    using QByteArray_replace_absent [OF nd] .
  show ?thesis
  proof (cases "prefix ''W/'' s")
    case True
    then have "prefix ''W/'' (s @ ''-gzip'')" by (rule prefix_prefix)
    moreover from True have "2 \<le> length s" by (auto simp: prefix_def)
    ultimately show ?thesis using True r3 r4
      by (auto simp: parseEtag_def Let_def)
  next
    case False
    then have "\<not> prefix ''W/'' (s @ ''-gzip'')"
      by (cases s; simp; cases "tl s"; simp)
    then show ?thesis using False r1 r2
      by (cases "s = []") (auto simp: parseEtag_def Let_def)
  qed
qed

lemma parseEtag_weak_quoted_gzip: \<open>\<not> sublist ''-gzip'' s \<Longrightarrow> parseEtag (''W/"'' @ s @ ''-gzip"'') = s\<close>
proof -
  assume ns: "\<not> sublist ''-gzip'' s"
  have n2: \<open>\<not> sublist ''-gzip'' (''"'' @ s)\<close> using ns by (simp add: sublist_Cons_right)
  have \<open>QByteArray_replace ''-gzip'' [] ((''"'' @ s) @ ''-gzip'' @ ''"'') = (''"'' @ s) @ ''"''\<close>
    using QByteArray_replace_gzip_before [OF n2, of \<open>''"''\<close>] by simp
  then show ?thesis by (simp add: parseEtag_def Let_def suffix_snoc_Cons)
qed


text \<open>
  C6: the entity-tag normalization maps \<open>W/"abc-gzip"\<close>, \<open>"abc"\<close> and \<open>abc\<close> to \<open>abc\<close>. In
  general it strips a leading \<open>W/\<close>, removes a \<open>-gzip\<close> artifact at the end of the tag
  and unwraps one pair of surrounding double quotes: a weak prefix in front of a text
  that does not itself start with \<open>W/\<close> changes nothing, neither does \<open>-gzip\<close> at the end
  of a text free of \<open>-gzip\<close>; such a text in double quotes comes back without them, and
  \<open>W/"s-gzip"\<close> comes back as \<open>s\<close>, whatever \<open>s\<close> is (quotes inside \<open>s\<close> stay).
\<close>

theorem parseEtag_normalizes:
  \<open>parseEtag ''W/"abc-gzip"'' = ''abc'' \<and> parseEtag ''"abc"'' = ''abc'' \<and> parseEtag ''abc'' = ''abc''
   \<and> (\<forall>s. \<not> prefix ''W/'' s \<longrightarrow> parseEtag (''W/'' @ s) = parseEtag s)
   \<and> (\<forall>s. \<not> sublist ''-gzip'' s \<longrightarrow> parseEtag (s @ ''-gzip'') = parseEtag s)
   \<and> (\<forall>s. \<not> sublist ''-gzip'' s \<longrightarrow> parseEtag (''"'' @ s @ ''"'') = s)
   \<and> (\<forall>s. \<not> sublist ''-gzip'' s \<longrightarrow> parseEtag (''W/"'' @ s @ ''-gzip"'') = s)\<close>
proof -
  have ex: \<open>parseEtag ''W/"abc-gzip"'' = ''abc'' \<and> parseEtag ''"abc"'' = ''abc''
      \<and> parseEtag ''abc'' = ''abc''\<close>
    by (simp add: parseEtag_def Let_def suffix_to_prefix)
  show ?thesis
    using ex parseEtag_weak_prefix parseEtag_gzip_suffix parseEtag_quoted
      parseEtag_weak_quoted_gzip
    by blast
qed

theorem parseEtag_normalizes_witness:
  \<open>\<not> prefix ''W/'' ''"a"'' \<and> parseEtag ''W/"a"'' = parseEtag ''"a"''
   \<and> \<not> sublist ''-gzip'' ''x-y'' \<and> parseEtag ''x-y-gzip'' = parseEtag ''x-y''
   \<and> parseEtag ''"x-y"'' = ''x-y''
   \<and> \<not> sublist ''-gzip'' ''"q"'' \<and> parseEtag ''W/""q"-gzip"'' = ''"q"''\<close>
proof -
  have h1: \<open>\<not> prefix ''W/'' ''"a"''\<close> by simp
  have h2: \<open>\<not> sublist ''-gzip'' ''x-y''\<close> by (simp add: sublist_Cons_right)
  have h3: \<open>\<not> sublist ''-gzip'' ''"q"''\<close> by (simp add: sublist_Cons_right)
  from parseEtag_normalizes h1 have \<open>parseEtag (''W/'' @ ''"a"'') = parseEtag ''"a"''\<close>
    by blast
  moreover from parseEtag_normalizes h2 have \<open>parseEtag (''x-y'' @ ''-gzip'') = parseEtag ''x-y''\<close>
    by blast
  moreover from parseEtag_normalizes h2 have \<open>parseEtag (''"'' @ ''x-y'' @ ''"'') = ''x-y''\<close>
    by blast
  moreover from parseEtag_normalizes h3 have \<open>parseEtag (''W/"'' @ ''"q"'' @ ''-gzip"'') = ''"q"''\<close>
    by blast
  ultimately show ?thesis using h1 h2 h3 by simp
qed

section \<open>Properties of \<open>RequestEtagJob::finished\<close>\<close>

declare RequestEtagJob_loop.simps [simp del]

lemma not_atEnd_iff: "\<not> atEnd (c, ts) \<longleftrightarrow> c \<noteq> Invalid \<and> c \<noteq> EndDocument"
  by (simp add: atEnd_def)

lemma RequestEtagJob_loop_Cons:
  "\<not> atEnd (c, t # ts) \<Longrightarrow>
   RequestEtagJob_loop (c, t # ts) e =
     (case RequestEtagJob_iteration (t, ts) e of (r', e') \<Rightarrow> RequestEtagJob_loop r' e')"
  by (subst RequestEtagJob_loop.simps) (simp add: readNext_def atEnd_def)

lemma RequestEtagJob_loop_cur:
  "c \<noteq> Invalid \<Longrightarrow> c \<noteq> EndDocument \<Longrightarrow> c \<noteq> NoToken \<Longrightarrow>
   RequestEtagJob_loop (c, ts) e = RequestEtagJob_loop (NoToken, ts) e"
  using RequestEtagJob_loop.simps [of "(c, ts)" e] RequestEtagJob_loop.simps [of "(NoToken, ts)" e]
  by (simp add: readNext_def atEnd_def)

lemma readElementText_loop_flat:
  "\<not> list_ex isElement cs \<Longrightarrow>
   readElementText_loop (concat (map tokens_of cs) @ EndElement ns n # rest) acc
     = (acc @ element_text cs, (EndElement ns n, rest))"
proof (induction cs arbitrary: acc)
  case Nil
  then show ?case by simp
next
  case (Cons c cs)
  then show ?case by (cases c) simp_all
qed

lemma getetags_flat_content:
  "\<not> list_ex isElement cs \<Longrightarrow> concat (map getetags cs) = []"
  by (induction cs) (auto elim: isElement.elims)

lemma RequestEtagJob_loop_xml:
  "getetags_flat x \<Longrightarrow> \<not> atEnd (c, rest) \<Longrightarrow>
   RequestEtagJob_loop (c, tokens_of x @ rest) e = RequestEtagJob_loop (NoToken, rest) (e @ getetags x)"
proof (induction x arbitrary: c rest e)
  case (Element ns n cs)
  have c: "\<not> atEnd (c, ts)" for ts using Element.prems(2) by (simp add: atEnd_def)
  show ?case
  proof (cases "ns = ''DAV:'' \<and> n = ''getetag''")
    case True
    with Element.prems(1) have flat: "\<not> list_ex isElement cs" by simp
    show ?thesis
      using True c
      by (simp add: RequestEtagJob_loop_Cons RequestEtagJob_iteration_def readElementText_def
          readElementText_loop_flat [OF flat] getetags_flat_content [OF flat] etag_of_text_def Let_def
          RequestEtagJob_loop_cur atEnd_def)
  next
    case False
    have children: "list_all getetags_flat ds \<Longrightarrow> set ds \<subseteq> set cs \<Longrightarrow> \<not> atEnd (c', rest') \<Longrightarrow>
        RequestEtagJob_loop (c', concat (map tokens_of ds) @ rest') e'
          = RequestEtagJob_loop (NoToken, rest') (e' @ concat (map getetags ds))" for ds c' rest' e'
    proof (induction ds arbitrary: c' e')
      case Nil
      then show ?case by (cases "c' = NoToken") (simp_all add: RequestEtagJob_loop_cur atEnd_def)
    next
      case (Cons d ds)
      have "RequestEtagJob_loop (c', tokens_of d @ concat (map tokens_of ds) @ rest') e'
            = RequestEtagJob_loop (NoToken, concat (map tokens_of ds) @ rest') (e' @ getetags d)"
        using Cons.prems by (intro Element.IH) (auto simp: atEnd_def)
      also have "\<dots> = RequestEtagJob_loop (NoToken, rest') ((e' @ getetags d) @ concat (map getetags ds))"
        using Cons.prems by (intro Cons.IH) (auto simp: atEnd_def)
      finally show ?case by simp
    qed
    have "RequestEtagJob_loop (c, tokens_of (Element ns n cs) @ rest) e
          = RequestEtagJob_loop (StartElement ns n, concat (map tokens_of cs) @ EndElement ns n # rest) e"
      using False c by (auto simp: RequestEtagJob_loop_Cons RequestEtagJob_iteration_def)
    also have "\<dots> = RequestEtagJob_loop (NoToken, EndElement ns n # rest) (e @ concat (map getetags cs))"
      using Element.prems(1) by (intro children) (auto simp: atEnd_def)
    also have "\<dots> = RequestEtagJob_loop (NoToken, rest) (e @ concat (map getetags cs))"
      by (simp add: RequestEtagJob_loop_Cons RequestEtagJob_iteration_def atEnd_def
          RequestEtagJob_loop_cur)
    finally show ?thesis using False by auto
  qed
next
  case (Text x)
  then show ?case
    by (simp add: RequestEtagJob_loop_Cons RequestEtagJob_iteration_def atEnd_def
        RequestEtagJob_loop_cur)
next
  case (CommentNode x)
  then show ?case
    by (simp add: RequestEtagJob_loop_Cons RequestEtagJob_iteration_def atEnd_def
        RequestEtagJob_loop_cur)
qed

lemma RequestEtagJob_loop_document:
  "getetags_flat root \<Longrightarrow> RequestEtagJob_loop (NoToken, document_tokens root) [] = getetags root"
proof -
  assume flat: "getetags_flat root"
  have "RequestEtagJob_loop (NoToken, document_tokens root) []
        = RequestEtagJob_loop (StartDocument, tokens_of root @ [EndDocument]) []"
    by (simp add: document_tokens_def RequestEtagJob_loop_Cons RequestEtagJob_iteration_def atEnd_def)
  also have "\<dots> = RequestEtagJob_loop (NoToken, [EndDocument]) ([] @ getetags root)"
    using flat by (rule RequestEtagJob_loop_xml) (simp add: atEnd_def)
  also have "\<dots> = getetags root"
    by (simp add: RequestEtagJob_loop_Cons RequestEtagJob_iteration_def atEnd_def)
       (simp add: RequestEtagJob_loop.simps atEnd_def)
  finally show ?thesis .
qed


text \<open>
  C10, as stated for every HTTP-207 response, fails: \<open>readElementText()\<close> raises an error
  at a child element, the reader is then at its end, and the \<open>getetag\<close> elements that
  follow are never read. In the document
  \<open><d:multistatus><d:getetag><x/></d:getetag><d:getetag>b</d:getetag></d:multistatus>\<close>
  the concatenation over all \<open>getetag\<close> elements is \<open>b\<close>; the job emits the empty string.
\<close>

theorem RequestEtagJob_child_element_counterexample:
  "getetags (Element ''DAV:'' ''multistatus''
       [Element ''DAV:'' ''getetag'' [Element [] ''x'' []],
        Element ''DAV:'' ''getetag'' [Text ''b'']]) = ''b''
   \<and> RequestEtagJob_finished 207 [] ''Thu, 01 Jan 2026 00:00:00 GMT''
        (document_tokens (Element ''DAV:'' ''multistatus''
           [Element ''DAV:'' ''getetag'' [Element [] ''x'' []],
            Element ''DAV:'' ''getetag'' [Text ''b'']]))
       = [EtagRetreived [] ''Thu, 01 Jan 2026 00:00:00 GMT'', FinishedWithResult []]"
  by (simp add: RequestEtagJob_finished_def document_tokens_def RequestEtagJob_loop.simps
      RequestEtagJob_iteration_def readElementText_def readNext_def atEnd_def etag_of_text_def
      parseEtag_def Let_def)

text \<open>
  C10, amended: for every HTTP-207 response whose body is a well-formed document in
  which each \<open>getetag\<close> element of the \<open>DAV:\<close> namespace holds character data only (no
  child element), the emitted etag is the concatenation, in document order, over all
  those elements, of the normalized tag when normalization yields a non-empty result and
  of the raw element text otherwise; both signals carry it. In particular a response
  with the \<open>getetag\<close> texts \<open>xs\<close> yields the concatenation of their tags, and one without
  any yields the empty string.
\<close>

theorem RequestEtagJob_finished_etag:
  "(getetags_flat root \<longrightarrow>
      RequestEtagJob_finished 207 errorString ts (document_tokens root)
        = [EtagRetreived (getetags root) ts, FinishedWithResult (getetags root)])
   \<and> RequestEtagJob_finished 207 errorString ts
        (document_tokens (Element ''DAV:'' ''multistatus''
           (map (\<lambda>x. Element ''DAV:'' ''getetag'' [Text x]) xs)))
        = [EtagRetreived (concat (map etag_of_text xs)) ts,
           FinishedWithResult (concat (map etag_of_text xs))]
   \<and> RequestEtagJob_finished 207 errorString ts
        (document_tokens (Element ''DAV:'' ''multistatus'' [])) = [EtagRetreived [] ts, FinishedWithResult []]"
proof -
  have general: "getetags_flat r \<Longrightarrow>
      RequestEtagJob_finished 207 errorString ts (document_tokens r)
        = [EtagRetreived (getetags r) ts, FinishedWithResult (getetags r)]" for r
    by (simp add: RequestEtagJob_finished_def RequestEtagJob_loop_document Let_def)
  let ?r = "Element ''DAV:'' ''multistatus'' (map (\<lambda>x. Element ''DAV:'' ''getetag'' [Text x]) xs)"
  have flat: "getetags_flat ?r"
    by (induction xs) simp_all
  have tags: "getetags ?r = concat (map etag_of_text xs)"
    by (induction xs) simp_all
  have empty: "getetags_flat (Element ''DAV:'' ''multistatus'' [])" by simp
  show ?thesis
    using general [of root] general [OF flat] general [OF empty] tags by simp
qed

theorem RequestEtagJob_finished_etag_witness:
  \<open>getetags_flat (Element ''DAV:'' ''multistatus''
       [Element ''DAV:'' ''response''
          [Element ''DAV:'' ''getetag'' [Text ''W/"abc-gzip"''],
           Element ''DAV:'' ''getetag'' [Text ''""'']]])
   \<and> RequestEtagJob_finished 207 [] ''Thu, 01 Jan 2026 00:00:00 GMT''
        (document_tokens (Element ''DAV:'' ''multistatus''
           [Element ''DAV:'' ''response''
              [Element ''DAV:'' ''getetag'' [Text ''W/"abc-gzip"''],
               Element ''DAV:'' ''getetag'' [Text ''""'']]]))
       = [EtagRetreived ''abc""'' ''Thu, 01 Jan 2026 00:00:00 GMT'', FinishedWithResult ''abc""'']\<close>
proof -
  let ?r = \<open>Element ''DAV:'' ''multistatus''
       [Element ''DAV:'' ''response''
          [Element ''DAV:'' ''getetag'' [Text ''W/"abc-gzip"''],
           Element ''DAV:'' ''getetag'' [Text ''""'']]]\<close>
  have flat: "getetags_flat ?r" by simp
  have tags: \<open>getetags ?r = ''abc""''\<close>
    by (simp add: etag_of_text_def parseEtag_def Let_def suffix_to_prefix)
  from RequestEtagJob_finished_etag [of ?r "[]" "''Thu, 01 Jan 2026 00:00:00 GMT''" "[]"] flat
  have "RequestEtagJob_finished 207 [] ''Thu, 01 Jan 2026 00:00:00 GMT'' (document_tokens ?r)
        = [EtagRetreived (getetags ?r) ''Thu, 01 Jan 2026 00:00:00 GMT'', FinishedWithResult (getetags ?r)]"
    by blast
  with flat tags show ?thesis by simp
qed

section \<open>Properties of \<open>LsColXMLParser::parse\<close>\<close>

declare LsCol_loop.simps [simp del]

lemma LsCol_loop_Cons:
  "c \<noteq> Invalid \<Longrightarrow> c \<noteq> EndDocument \<Longrightarrow>
   LsCol_loop ep (c, t # ts) s =
     (case LsCol_iteration ep (t, ts) s of
        (f, r', s') \<Rightarrow> if f = ReturnFalse then (False, r', s') else LsCol_loop ep r' s')"
  by (subst LsCol_loop.simps) (simp add: readNext_def atEnd_def)

lemma LsCol_loop_cur:
  "c \<noteq> Invalid \<Longrightarrow> c \<noteq> EndDocument \<Longrightarrow> c \<noteq> NoToken \<Longrightarrow>
   LsCol_loop ep (c, ts) s = LsCol_loop ep (NoToken, ts) s"
  using LsCol_loop.simps [of ep "(c, ts)" s] LsCol_loop.simps [of ep "(NoToken, ts)" s]
  by (simp add: readNext_def atEnd_def)

lemma tokens_of_pad:
  "concat (map tokens_of (pad ws cs))
     = concat (map (\<lambda>c. concat (map tokens_of ws) @ tokens_of c) cs) @ concat (map tokens_of ws)"
  by (induction cs) (simp_all add: pad_def)

lemma LsCol_iteration_Characters [simp]:
  "LsCol_iteration ep (Characters x, ts) s = (Proceed, (Characters x, ts), s)"
  by (simp add: LsCol_iteration_def)

lemma LsCol_iteration_Comment [simp]:
  "LsCol_iteration ep (Comment x, ts) s = (Proceed, (Comment x, ts), s)"
  by (simp add: LsCol_iteration_def)

lemma LsCol_loop_ignorable:
  "ignorable ws \<Longrightarrow>
   LsCol_loop ep (NoToken, concat (map tokens_of ws) @ rest) s = LsCol_loop ep (NoToken, rest) s"
proof (induction ws)
  case Nil
  then show ?case by simp
next
  case (Cons w ws)
  then have ws: "ignorable ws" and w: "\<not> isElement w" by (simp_all add: ignorable_def)
  show ?case
  proof (cases w)
    case (Element ns n cs)
    with w show ?thesis by simp
  next
    case (Text x)
    then show ?thesis using Cons.IH [OF ws] by (simp add: LsCol_loop_Cons LsCol_loop_cur)
  next
    case (CommentNode x)
    then show ?thesis using Cons.IH [OF ws] by (simp add: LsCol_loop_Cons LsCol_loop_cur)
  qed
qed

lemma readContentsAsString_loop_xml:
  "0 \<le> level \<Longrightarrow>
   readContentsAsString_loop (tokens_of x @ rest) level acc
     = readContentsAsString_loop rest level (acc @ xml_string x)"
proof (induction x arbitrary: level acc rest)
  case (Element ns n cs)
  have children: "set ds \<subseteq> set cs \<Longrightarrow> 0 \<le> l \<Longrightarrow>
      readContentsAsString_loop (concat (map tokens_of ds) @ rest') l acc'
        = readContentsAsString_loop rest' l (acc' @ concat (map xml_string ds))" for ds l acc' rest'
  proof (induction ds arbitrary: acc')
    case Nil
    then show ?case by simp
  next
    case (Cons d ds)
    then show ?case using Element.IH [of d l] by simp
  qed
  show ?case using Element.prems children [of cs "level + 1"] by simp
next
  case (Text x)
  then show ?case by simp
next
  case (CommentNode x)
  then show ?case by simp
qed

lemma readContentsAsString_loop_content:
  "readContentsAsString_loop (concat (map tokens_of cs) @ EndElement ns n # rest) 0 []
     = (concat (map xml_string cs), (EndElement ns n, rest))"
proof -
  have "readContentsAsString_loop (concat (map tokens_of ds) @ rest') 0 acc
        = readContentsAsString_loop rest' 0 (acc @ concat (map xml_string ds))" for ds rest' acc
    by (induction ds arbitrary: acc) (simp_all add: readContentsAsString_loop_xml)
  then show ?thesis by simp
qed

lemma LsCol_loop_property:
  assumes "insidePropstat s" "insideProp s" "\<not> reserved_name p"
    and "c \<noteq> Invalid" "c \<noteq> EndDocument"
  shows "LsCol_loop ep (c, tokens_of (property_xml p) @ rest) s
         = LsCol_loop ep (NoToken, rest) (property_state p s)"
proof -
  obtain ns n cs where p: "p = Property ns n cs" by (cases p)
  have rc: "readContentsAsString (StartElement ns n, concat (map tokens_of cs) @ EndElement ns n # rest)
            = (concat (map xml_string cs), (EndElement ns n, rest))"
    by (simp add: readContentsAsString_def readContentsAsString_loop_content)
  have st: "(if isStartElement (StartElement ns n) \<and> namespaceUri (StartElement ns n) = ''DAV:''
             then LsCol_startElement ep (StartElement ns n, concat (map tokens_of cs) @ EndElement ns n # rest) s
             else (Proceed, (StartElement ns n, concat (map tokens_of cs) @ EndElement ns n # rest), s))
            = (Proceed, (StartElement ns n, concat (map tokens_of cs) @ EndElement ns n # rest), s)"
    using assms(1,3) by (auto simp: LsCol_startElement_def reserved_name_def p)
  have it: "LsCol_iteration ep (StartElement ns n, concat (map tokens_of cs) @ EndElement ns n # rest) s
            = (Proceed, (EndElement ns n, rest), property_state p s)"
    using assms(1,2)
    by (cases "sizes s")
       (simp_all add: LsCol_iteration_def st [simplified] LsCol_property_def rc property_state_def
        property_value_def is_collection_def record_size_def insert_property_def p Let_def
        split: option.split)
  show ?thesis
    using assms(4,5) by (simp add: p LsCol_loop_Cons it LsCol_loop_cur)
qed

lemma property_state_fields [simp]:
  "insidePropstat (property_state p s) = insidePropstat s"
  "insideProp (property_state p s) = insideProp s"
  "currentHref (property_state p s) = currentHref s"
  by (simp_all add: property_state_def)

lemma fold_property_state:
  "fold property_state ps s =
     s\<lparr>folders := folders s @ map (\<lambda>p. currentHref s) (filter is_collection ps),
       sizes := map_option (fold (record_size (currentHref s)) ps) (sizes s),
       currentTmpProperties := fold insert_property ps (currentTmpProperties s)\<rparr>"
proof (induction ps arbitrary: s)
  case Nil
  then show ?case by (simp add: option.map_ident)
next
  case (Cons p ps)
  show ?case
    unfolding fold_simps Cons.IH
    by (rule lscol_state.equality)
       (simp_all add: property_state_def option.map_comp comp_def)
qed

lemma LsCol_loop_properties:
  assumes "insidePropstat s" "insideProp s" "list_all (\<lambda>p. \<not> reserved_name p) ps" "ignorable ws"
  shows "LsCol_loop ep (NoToken, concat (map (\<lambda>c. concat (map tokens_of ws) @ tokens_of c)
                                           (map property_xml ps)) @ rest) s
         = LsCol_loop ep (NoToken, rest) (fold property_state ps s)"
  using assms
proof (induction ps arbitrary: s)
  case Nil
  then show ?case by simp
next
  case (Cons p ps)
  let ?more = "concat (map (\<lambda>c. concat (map tokens_of ws) @ tokens_of c) (map property_xml ps)) @ rest"
  have "LsCol_loop ep (NoToken, concat (map tokens_of ws) @ tokens_of (property_xml p) @ ?more) s
        = LsCol_loop ep (NoToken, tokens_of (property_xml p) @ ?more) s"
    using Cons.prems(4) by (rule LsCol_loop_ignorable)
  also have "\<dots> = LsCol_loop ep (NoToken, ?more) (property_state p s)"
    using Cons.prems by (intro LsCol_loop_property) simp_all
  also have "\<dots> = LsCol_loop ep (NoToken, rest) (fold property_state ps (property_state p s))"
    using Cons.prems by (intro Cons.IH) simp_all
  finally show ?case by simp
qed

lemma LsCol_loop_propstat:
  assumes "\<not> insidePropstat s" "\<not> insideProp s" "list_all (\<lambda>p. \<not> reserved_name p) (ps_props b)"
    and "ignorable ws" and "c \<noteq> Invalid" "c \<noteq> EndDocument"
  shows "LsCol_loop ep (c, tokens_of (propstat_xml ws b) @ rest) s
         = LsCol_loop ep (NoToken, rest) (propstat_state b s)"
proof -
  obtain ps st where b: "b = Propstat ps st" by (cases b)
  let ?W = "concat (map tokens_of ws)"
  let ?s1 = "s\<lparr>insidePropstat := True, insideProp := True\<rparr>"
  let ?s2 = "fold property_state ps ?s1"
  let ?tail = "?W @ EndElement ''DAV:'' ''prop'' # ?W @ StartElement ''DAV:'' ''status'' # Characters st
     # EndElement ''DAV:'' ''status'' # ?W @ EndElement ''DAV:'' ''propstat'' # rest"
  note ign = LsCol_loop_ignorable [OF assms(4)]
  have "LsCol_loop ep (c, tokens_of (propstat_xml ws b) @ rest) s
        = LsCol_loop ep (NoToken, concat (map (\<lambda>c. ?W @ tokens_of c) (map property_xml ps)) @ ?tail) ?s1"
    using assms(1,2,5,6)
    by (simp add: b tokens_of_pad LsCol_loop_Cons LsCol_iteration_def LsCol_startElement_def
        LsCol_loop_cur ign)
  also have "\<dots> = LsCol_loop ep (NoToken, ?tail) ?s2"
    using assms(3,4) by (intro LsCol_loop_properties) (simp_all add: b)
  also have "\<dots> = LsCol_loop ep (NoToken, rest) (propstat_state b s)"
    using assms(1,2)
    by (simp add: LsCol_loop_Cons LsCol_iteration_def LsCol_startElement_def LsCol_endElement_def
        LsCol_loop_cur readElementText_def fold_property_state propstat_state_def b is_http200_def ign)
  finally show ?thesis .
qed

lemma propstat_state_fields [simp]:
  "insidePropstat (propstat_state b s) = False"
  "insideProp (propstat_state b s) = False"
  "currentHref (propstat_state b s) = currentHref s"
  "currentTmpProperties (propstat_state b s) = Map.empty"
  "currentPropsHaveHttp200 (propstat_state b s) = False"
  by (simp_all add: propstat_state_def)

lemma idle_propstat_state [simp]: "idle (propstat_state b s)"
  by (simp add: idle_def)

lemma LsCol_loop_propstats:
  assumes "idle s" "list_all (\<lambda>p. \<not> reserved_name p) (concat (map ps_props bs))" "ignorable ws"
  shows "LsCol_loop ep (NoToken, concat (map (\<lambda>c. concat (map tokens_of ws) @ tokens_of c)
                                           (map (propstat_xml ws) bs)) @ rest) s
         = LsCol_loop ep (NoToken, rest) (fold propstat_state bs s)"
  using assms
proof (induction bs arbitrary: s)
  case Nil
  then show ?case by simp
next
  case (Cons b bs)
  let ?more = "concat (map (\<lambda>c. concat (map tokens_of ws) @ tokens_of c) (map (propstat_xml ws) bs)) @ rest"
  have "LsCol_loop ep (NoToken, concat (map tokens_of ws) @ tokens_of (propstat_xml ws b) @ ?more) s
        = LsCol_loop ep (NoToken, tokens_of (propstat_xml ws b) @ ?more) s"
    using Cons.prems(3) by (rule LsCol_loop_ignorable)
  also have "\<dots> = LsCol_loop ep (NoToken, ?more) (propstat_state b s)"
    using Cons.prems by (intro LsCol_loop_propstat) (simp_all add: idle_def)
  also have "\<dots> = LsCol_loop ep (NoToken, rest) (fold propstat_state bs (propstat_state b s))"
    using Cons.prems by (intro Cons.IH) simp_all
  finally show ?case by simp
qed

lemma last_http200_Cons:
  "last_http200 (b # bs) m = last_http200 bs (if is_http200 b then block_properties b else m)"
  by (simp add: last_http200_def)

lemma fold_propstat_state:
  "idle s \<Longrightarrow>
   fold propstat_state bs s =
     s\<lparr>folders := folders s @ map (\<lambda>p. currentHref s) (filter is_collection (concat (map ps_props bs))),
       sizes := map_option (fold (record_size (currentHref s)) (concat (map ps_props bs))) (sizes s),
       currentHttp200Properties := last_http200 bs (currentHttp200Properties s)\<rparr>"
proof (induction bs arbitrary: s)
  case Nil
  then show ?case by (simp add: last_http200_def option.map_ident)
next
  case (Cons b bs)
  have *: "fold insert_property (ps_props b) Map.empty = block_properties b"
    by (simp add: block_properties_def)
  show ?case
    unfolding fold_simps Cons.IH [OF idle_propstat_state]
    using Cons.prems
    by (intro lscol_state.equality)
       (simp_all add: propstat_state_def option.map_comp comp_def last_http200_Cons * idle_def)
qed

lemma readElementText_text:
  "readElementText (StartElement ns n, Characters x # EndElement ns' n' # rest)
     = (x, (EndElement ns' n', rest))"
  by (simp add: readElementText_def)

lemma LsCol_loop_response:
  assumes "idle s" "currentHttp200Properties s = Map.empty" "well_formed_response r"
    and "prefix ep (response_href r)" and "ignorable ws"
    and "c \<noteq> Invalid" "c \<noteq> EndDocument"
  shows "LsCol_loop ep (c, tokens_of (response_xml ws r) @ rest) s
         = LsCol_loop ep (NoToken, rest) (response_state r s)"
proof -
  obtain h bs where r: "r = Response h bs" by (cases r)
  let ?W = "concat (map tokens_of ws)"
  let ?s1 = "s\<lparr>currentHref := fromPercentEncoding h\<rparr>"
  note ign = LsCol_loop_ignorable [OF assms(5)]
  have idle1: "idle ?s1" using assms(1) by (simp add: idle_def)
  have "LsCol_loop ep (c, tokens_of (response_xml ws r) @ rest) s
        = LsCol_loop ep (NoToken, concat (map (\<lambda>c. ?W @ tokens_of c) (map (propstat_xml ws) bs))
                                   @ ?W @ EndElement ''DAV:'' ''response'' # rest) ?s1"
    using assms(1,4,6,7)
    by (simp add: r tokens_of_pad LsCol_loop_Cons LsCol_iteration_def LsCol_startElement_def
        LsCol_loop_cur readElementText_text idle_def response_href_def ign)
  also have "\<dots> = LsCol_loop ep (NoToken, ?W @ EndElement ''DAV:'' ''response'' # rest)
                       (fold propstat_state bs ?s1)"
    using idle1 assms(3,5)
    by (intro LsCol_loop_propstats) (simp_all add: well_formed_response_def response_properties_def r)
  also have "\<dots> = LsCol_loop ep (NoToken, rest) (response_state r s)"
    using assms(1,2)
    by (simp add: LsCol_loop_Cons LsCol_iteration_def LsCol_endElement_def LsCol_loop_cur
        fold_propstat_state [OF idle1] response_state_def response_folders_def response_sizes_def
        response_entry_def response_href_def response_properties_def published_properties_def
        last_http200_def r ign)
  finally show ?thesis .
qed

lemma LsCol_loop_bad_response:
  assumes "idle s" "\<not> prefix ep (response_href r)" "ignorable ws" "c \<noteq> Invalid" "c \<noteq> EndDocument"
  shows "\<exists>r'. LsCol_loop ep (c, tokens_of (response_xml ws r) @ rest) s = (False, r', s)"
proof -
  obtain h bs where r: "r = Response h bs" by (cases r)
  show ?thesis
    using assms(1,2,4,5)
    by (simp add: r tokens_of_pad LsCol_loop_Cons LsCol_iteration_def LsCol_startElement_def
        LsCol_loop_cur readElementText_text idle_def response_href_def
        LsCol_loop_ignorable [OF assms(3)])
qed

lemma response_state_fields [simp]:
  "idle (response_state r s) = idle s"
  "currentHttp200Properties (response_state r s) = Map.empty"
  "currentHref (response_state r s) = []"
  "insideMultiStatus (response_state r s) = insideMultiStatus s"
  by (simp_all add: response_state_def idle_def)

lemma LsCol_loop_responses:
  assumes "idle s" "currentHttp200Properties s = Map.empty" "list_all well_formed_response rs"
    and "list_all (\<lambda>r. prefix ep (response_href r)) rs" and "ignorable ws"
  shows "LsCol_loop ep (NoToken, concat (map (\<lambda>c. concat (map tokens_of ws) @ tokens_of c)
                                           (map (response_xml ws) rs)) @ rest) s
         = LsCol_loop ep (NoToken, rest) (fold response_state rs s)"
  using assms
proof (induction rs arbitrary: s)
  case Nil
  then show ?case by simp
next
  case (Cons r rs)
  let ?more = "concat (map (\<lambda>c. concat (map tokens_of ws) @ tokens_of c) (map (response_xml ws) rs)) @ rest"
  have "LsCol_loop ep (NoToken, concat (map tokens_of ws) @ tokens_of (response_xml ws r) @ ?more) s
        = LsCol_loop ep (NoToken, tokens_of (response_xml ws r) @ ?more) s"
    using Cons.prems(5) by (rule LsCol_loop_ignorable)
  also have "\<dots> = LsCol_loop ep (NoToken, ?more) (response_state r s)"
    using Cons.prems by (intro LsCol_loop_response) simp_all
  also have "\<dots> = LsCol_loop ep (NoToken, rest) (fold response_state rs (response_state r s))"
    using Cons.prems by (intro Cons.IH) simp_all
  finally show ?case by simp
qed

lemma fold_response_state:
  "currentHref s = [] \<Longrightarrow> currentHttp200Properties s = Map.empty \<Longrightarrow>
   fold response_state rs s =
     s\<lparr>folders := folders s @ concat (map response_folders rs),
       sizes := map_option (fold response_sizes rs) (sizes s),
       emitted := emitted s @ map response_entry rs\<rparr>"
proof (induction rs arbitrary: s)
  case Nil
  then show ?case by (simp add: option.map_ident)
next
  case (Cons r rs)
  have "fold response_state (r # rs) s = fold response_state rs (response_state r s)"
    by simp
  also have "\<dots> = (response_state r s)
     \<lparr>folders := folders (response_state r s) @ concat (map response_folders rs),
       sizes := map_option (fold response_sizes rs) (sizes (response_state r s)),
       emitted := emitted (response_state r s) @ map response_entry rs\<rparr>"
    by (rule Cons.IH) simp_all
  also have "\<dots> = s\<lparr>folders := folders s @ concat (map response_folders (r # rs)),
       sizes := map_option (fold response_sizes (r # rs)) (sizes s),
       emitted := emitted s @ map response_entry (r # rs)\<rparr>"
    using Cons.prems
    by (intro lscol_state.equality) (simp_all add: response_state_def option.map_comp comp_def)
  finally show ?case .
qed

lemma LsColXMLParser_parse_loop:
  "LsColXMLParser_parse xml sz ep =
     (case LsCol_loop ep (NoToken, xml) (initial_state sz) of
        (completed, r, s) \<Rightarrow>
          if \<not> completed then (False, emitted s, sizes s)
          else if hasError r then (False, emitted s, sizes s)
          else if \<not> insideMultiStatus s then (False, emitted s, sizes s)
          else (True, emitted s @ [DirectoryListingSubfolders (folders s), FinishedWithoutError],
                sizes s))"
  by (simp add: LsColXMLParser_parse_def initial_state_def)

lemma LsCol_loop_multistatus_start:
  "LsCol_loop ep (NoToken, StartDocument # StartElement ''DAV:'' ''multistatus'' # rest) (initial_state sz)
   = LsCol_loop ep (NoToken, rest) ((initial_state sz)\<lparr>insideMultiStatus := True\<rparr>)"
  by (simp add: LsCol_loop_Cons LsCol_iteration_def LsCol_startElement_def LsCol_loop_cur
      initial_state_def)

lemma LsCol_loop_multistatus_end:
  "idle s \<Longrightarrow>
   LsCol_loop ep (NoToken, [EndElement ''DAV:'' ''multistatus'', EndDocument]) s
   = (True, (EndDocument, []), s)"
  by (simp add: LsCol_loop_Cons LsCol_iteration_def LsCol_endElement_def LsCol_loop_cur)
     (simp add: LsCol_loop.simps atEnd_def)

lemma LsColXMLParser_parse_multistatus:
  assumes "list_all well_formed_response rs" "list_all (\<lambda>r. prefix ep (response_href r)) rs"
    and "ignorable ws"
  shows "LsColXMLParser_parse (document_tokens (multistatus_xml ws rs)) sz ep
         = (True,
            map response_entry rs
              @ [DirectoryListingSubfolders (concat (map response_folders rs)), FinishedWithoutError],
            map_option (fold response_sizes rs) sz)"
proof -
  let ?W = "concat (map tokens_of ws)"
  let ?s0 = "(initial_state sz)\<lparr>insideMultiStatus := True\<rparr>"
  let ?s1 = "fold response_state rs ?s0"
  have idle0: "idle ?s0" "currentHttp200Properties ?s0 = Map.empty" "currentHref ?s0 = []"
    by (simp_all add: idle_def initial_state_def)
  have s1: "?s1 = ?s0\<lparr>folders := concat (map response_folders rs),
       sizes := map_option (fold response_sizes rs) sz,
       emitted := map response_entry rs\<rparr>"
    by (subst fold_response_state) (simp_all add: initial_state_def)
  have idle1: "idle ?s1" unfolding s1 by (simp add: idle_def initial_state_def)
  have "LsCol_loop ep (NoToken, document_tokens (multistatus_xml ws rs)) (initial_state sz)
        = LsCol_loop ep (NoToken, concat (map (\<lambda>c. ?W @ tokens_of c) (map (response_xml ws) rs))
                                   @ ?W @ [EndElement ''DAV:'' ''multistatus'', EndDocument]) ?s0"
    by (simp add: document_tokens_def multistatus_xml_def tokens_of_pad LsCol_loop_multistatus_start)
  also have "\<dots> = LsCol_loop ep (NoToken, ?W @ [EndElement ''DAV:'' ''multistatus'', EndDocument]) ?s1"
    using idle0 assms by (intro LsCol_loop_responses) simp_all
  also have "\<dots> = LsCol_loop ep (NoToken, [EndElement ''DAV:'' ''multistatus'', EndDocument]) ?s1"
    using assms(3) by (rule LsCol_loop_ignorable)
  also have "\<dots> = (True, (EndDocument, []), ?s1)"
    using idle1 by (rule LsCol_loop_multistatus_end)
  finally have "LsCol_loop ep (NoToken, document_tokens (multistatus_xml ws rs)) (initial_state sz)
        = (True, (EndDocument, []), ?s1)" .
  then show ?thesis
    unfolding LsColXMLParser_parse_loop s1
    by (simp add: hasError_def)
qed

lemma LsColXMLParser_parse_bad_href:
  assumes "list_all well_formed_response rs" "list_all (\<lambda>r. prefix ep (response_href r)) rs"
    and "\<not> prefix ep (response_href bad)" and "ignorable ws"
  shows "LsColXMLParser_parse
           (StartDocument # StartElement ''DAV:'' ''multistatus''
              # concat (map (\<lambda>c. concat (map tokens_of ws) @ tokens_of c) (map (response_xml ws) rs))
              @ concat (map tokens_of ws) @ tokens_of (response_xml ws bad) @ rest) sz ep
         = (False, map response_entry rs, map_option (fold response_sizes rs) sz)"
proof -
  let ?W = "concat (map tokens_of ws)"
  let ?s0 = "(initial_state sz)\<lparr>insideMultiStatus := True\<rparr>"
  let ?s1 = "fold response_state rs ?s0"
  let ?doc = "StartDocument # StartElement ''DAV:'' ''multistatus''
              # concat (map (\<lambda>c. ?W @ tokens_of c) (map (response_xml ws) rs))
              @ ?W @ tokens_of (response_xml ws bad) @ rest"
  have idle0: "idle ?s0" "currentHttp200Properties ?s0 = Map.empty" "currentHref ?s0 = []"
    by (simp_all add: idle_def initial_state_def)
  have s1: "?s1 = ?s0\<lparr>folders := concat (map response_folders rs),
       sizes := map_option (fold response_sizes rs) sz,
       emitted := map response_entry rs\<rparr>"
    by (subst fold_response_state) (simp_all add: initial_state_def)
  have idle1: "idle ?s1" unfolding s1 by (simp add: idle_def initial_state_def)
  have "LsCol_loop ep (NoToken, ?doc) (initial_state sz)
        = LsCol_loop ep (NoToken, concat (map (\<lambda>c. ?W @ tokens_of c) (map (response_xml ws) rs))
                                   @ ?W @ tokens_of (response_xml ws bad) @ rest) ?s0"
    by (simp add: LsCol_loop_multistatus_start)
  also have "\<dots> = LsCol_loop ep (NoToken, ?W @ tokens_of (response_xml ws bad) @ rest) ?s1"
    using idle0 assms by (intro LsCol_loop_responses) simp_all
  also have "\<dots> = LsCol_loop ep (NoToken, tokens_of (response_xml ws bad) @ rest) ?s1"
    using assms(4) by (rule LsCol_loop_ignorable)
  finally have eq: "LsCol_loop ep (NoToken, ?doc) (initial_state sz)
        = LsCol_loop ep (NoToken, tokens_of (response_xml ws bad) @ rest) ?s1" .
  obtain r' where "LsCol_loop ep (NoToken, tokens_of (response_xml ws bad) @ rest) ?s1 = (False, r', ?s1)"
    using LsCol_loop_bad_response [OF idle1 assms(3,4), of NoToken rest] by auto
  with eq have "LsCol_loop ep (NoToken, ?doc) (initial_state sz) = (False, r', ?s1)" by simp
  then show ?thesis
    unfolding LsColXMLParser_parse_loop s1
    by simp
qed

lemma document_tokens_split:
  "document_tokens (multistatus_xml ws (rs @ bad # rs'))
   = StartDocument # StartElement ''DAV:'' ''multistatus''
       # concat (map (\<lambda>c. concat (map tokens_of ws) @ tokens_of c) (map (response_xml ws) rs))
       @ concat (map tokens_of ws) @ tokens_of (response_xml ws bad)
       @ (concat (map (\<lambda>c. concat (map tokens_of ws) @ tokens_of c) (map (response_xml ws) rs'))
          @ concat (map tokens_of ws) @ [EndElement ''DAV:'' ''multistatus'', EndDocument])"
  by (simp add: document_tokens_def multistatus_xml_def tokens_of_pad)

lemma published_properties_none:
  "list_all (\<lambda>b. \<not> is_http200 b) (resp_propstats r) \<Longrightarrow> published_properties r = Map.empty"
  by (simp add: published_properties_def list_all_iff filter_empty_conv)

lemma published_properties_last:
  "is_http200 b \<Longrightarrow> list_all (\<lambda>b. \<not> is_http200 b) bs' \<Longrightarrow>
   published_properties (Response h (bs @ b # bs')) = block_properties b"
proof -
  assume b: "is_http200 b" and bs': "list_all (\<lambda>b. \<not> is_http200 b) bs'"
  have "filter is_http200 bs' = []" using bs' by (simp add: list_all_iff filter_empty_conv)
  then have "filter is_http200 (bs @ b # bs') = filter is_http200 bs @ [b]" using b by simp
  then show ?thesis by (simp add: published_properties_def)
qed

lemma dom_block_properties:
  "dom (block_properties b) = prop_name ` set (ps_props b)"
proof -
  have "dom (fold insert_property ps m) = dom m \<union> prop_name ` set ps" for ps m
    by (induction ps arbitrary: m) (auto simp: insert_property_def)
  then show ?thesis by (simp add: block_properties_def)
qed

text \<open>
  C1: for every well-formed multistatus body, the property mapping published for each
  emitted entry holds exactly the properties of a \<open>propstat\<close> block whose status text
  starts with \<open>HTTP/1.1 200\<close>: the parser emits one entry per response, in order, with the
  mapping \<open>published_properties\<close>; that mapping is empty when no block of the response
  has such a status, and otherwise it is the mapping of the last such block alone,
  whatever the blocks before it (with any status) and the other blocks after it hold:
  the last one overwrites, nothing is merged. The keys of a block's mapping are the names
  of its properties. Well-formed: the properties carry none of the grammar's own names,
  every href lies under the expected path, and only white space and comments stand
  between the elements.
\<close>

theorem LsCol_published_properties:
  assumes "list_all well_formed_response rs"
    and "list_all (\<lambda>r. prefix expectedPath (response_href r)) rs"
    and "ignorable ws"
  shows "fst (snd (LsColXMLParser_parse (document_tokens (multistatus_xml ws rs)) sizes0 expectedPath))
           = map (\<lambda>r. DirectoryListingIterated (chopSlash (response_href r)) (published_properties r)) rs
             @ [DirectoryListingSubfolders (concat (map response_folders rs)), FinishedWithoutError]
         \<and> (\<forall>r. list_all (\<lambda>b. \<not> is_http200 b) (resp_propstats r)
                \<longrightarrow> published_properties r = Map.empty)
         \<and> (\<forall>h bs b bs'. is_http200 b \<and> list_all (\<lambda>b. \<not> is_http200 b) bs'
                \<longrightarrow> published_properties (Response h (bs @ b # bs')) = block_properties b)
         \<and> (\<forall>b. dom (block_properties b) = prop_name ` set (ps_props b))"
  using LsColXMLParser_parse_multistatus [OF assms, of sizes0]
    published_properties_none published_properties_last dom_block_properties
  by (simp add: response_entry_def [abs_def])

theorem LsCol_published_properties_witness:
  "list_all well_formed_response
     [Response ''/dav/a/''
        [Propstat [Property ''DAV:'' ''getetag'' [Text ''x1'']] ''HTTP/1.1 200 OK'',
         Propstat [Property ''DAV:'' ''quota'' []] ''HTTP/1.1 404 Not Found'',
         Propstat [Property ''DAV:'' ''displayname'' [Text ''a'']] ''HTTP/1.1 200 OK''],
      Response ''/dav/b'' [Propstat [Property ''DAV:'' ''quota'' []] ''HTTP/1.1 404 Not Found'']]
   \<and> ignorable [Text '' '']
   \<and> fst (snd (LsColXMLParser_parse (document_tokens (multistatus_xml [Text '' '']
       [Response ''/dav/a/''
          [Propstat [Property ''DAV:'' ''getetag'' [Text ''x1'']] ''HTTP/1.1 200 OK'',
           Propstat [Property ''DAV:'' ''quota'' []] ''HTTP/1.1 404 Not Found'',
           Propstat [Property ''DAV:'' ''displayname'' [Text ''a'']] ''HTTP/1.1 200 OK''],
        Response ''/dav/b'' [Propstat [Property ''DAV:'' ''quota'' []] ''HTTP/1.1 404 Not Found'']]))
       None ''/dav''))
     = [DirectoryListingIterated ''/dav/a'' [''displayname'' \<mapsto> ''a''],
        DirectoryListingIterated ''/dav/b'' Map.empty,
        DirectoryListingSubfolders [], FinishedWithoutError]"
proof -
  let ?rs = "[Response ''/dav/a/''
        [Propstat [Property ''DAV:'' ''getetag'' [Text ''x1'']] ''HTTP/1.1 200 OK'',
         Propstat [Property ''DAV:'' ''quota'' []] ''HTTP/1.1 404 Not Found'',
         Propstat [Property ''DAV:'' ''displayname'' [Text ''a'']] ''HTTP/1.1 200 OK''],
      Response ''/dav/b'' [Propstat [Property ''DAV:'' ''quota'' []] ''HTTP/1.1 404 Not Found'']]"
  have wf: "list_all well_formed_response ?rs"
    by (simp add: well_formed_response_def response_properties_def reserved_name_def)
  have good: "list_all (\<lambda>r. prefix ''/dav'' (response_href r)) ?rs"
    by (simp add: response_href_def)
  have ign: "ignorable [Text '' '']" by (simp add: ignorable_def)
  from LsCol_published_properties [OF wf good ign, of None] wf ign
  show ?thesis
    by (simp add: response_href_def published_properties_def
        is_http200_def block_properties_def insert_property_def property_value_def
        response_folders_def response_properties_def is_collection_def chopSlash_def
        suffix_to_prefix)
qed

lemma LsCol_loop_href_mismatch:
  assumes "c \<noteq> Invalid" "c \<noteq> EndDocument"
    and "\<not> prefix ep (fromPercentEncoding (fst (readElementText (StartElement ''DAV:'' ''href'', ts))))"
  shows "LsCol_loop ep (c, StartElement ''DAV:'' ''href'' # ts) s
         = (False, snd (readElementText (StartElement ''DAV:'' ''href'', ts)), s)"
proof -
  obtain x r' where rt: "readElementText (StartElement ''DAV:'' ''href'', ts) = (x, r')"
    by (cases "readElementText (StartElement ''DAV:'' ''href'', ts)") auto
  with assms(3) have "\<not> prefix ep (fromPercentEncoding x)" by simp
  then have "LsCol_iteration ep (StartElement ''DAV:'' ''href'', ts) s = (ReturnFalse, r', s)"
    by (simp add: LsCol_iteration_def LsCol_startElement_def rt)
  with assms(1,2) rt show ?thesis by (simp add: LsCol_loop_Cons)
qed

lemma LsCol_loop_steps:
  "LsCol_steps ep n r s = Some (r', s') \<Longrightarrow> LsCol_loop ep r s = LsCol_loop ep r' s'"
proof (induction n arbitrary: r s)
  case 0
  then show ?case by simp
next
  case (Suc n)
  from Suc.prems have ne: "\<not> atEnd r" by (simp split: if_splits)
  obtain f r1 s1 where it: "LsCol_iteration ep (readNext r) s = (f, r1, s1)"
    using prod_cases3 by blast
  from Suc.prems ne it have f: "f \<noteq> ReturnFalse" and st: "LsCol_steps ep n r1 s1 = Some (r', s')"
    by (simp_all split: if_splits)
  have "LsCol_loop ep r s = LsCol_loop ep r1 s1"
    using ne it f by (subst LsCol_loop.simps) simp
  also have "\<dots> = LsCol_loop ep r' s'" by (rule Suc.IH [OF st])
  finally show ?case .
qed

text \<open>
  C2, as stated, fails: not every \<open>href\<close> element is checked. The content of a property
  is read by \<open>readContentsAsString\<close>, which takes every token up to the property's end
  tag; a \<open>DAV:href\<close> in there, as the \<open>owner\<close> property of WebDAV holds one, becomes part
  of the property's text and is neither decoded nor compared with the expected path. The
  parse succeeds and the entry is emitted.
\<close>

theorem LsCol_nested_href_counterexample:
  "\<not> prefix ''/dav'' (fromPercentEncoding ''/etc/passwd'')
   \<and> LsColXMLParser_parse
        (document_tokens (multistatus_xml []
           [Response ''/dav/f''
              [Propstat [Property ''DAV:'' ''owner'' [Element ''DAV:'' ''href'' [Text ''/etc/passwd'']]]
                 ''HTTP/1.1 200 OK'']]))
        None ''/dav''
     = (True,
        [DirectoryListingIterated ''/dav/f'' [''owner'' \<mapsto> ''<href>/etc/passwd</href>''],
         DirectoryListingSubfolders [], FinishedWithoutError],
        None)"
  by (simp add: document_tokens_def multistatus_xml_def pad_def LsColXMLParser_parse_def
        LsCol_loop.simps LsCol_iteration_def readNext_def atEnd_def hasError_def LsCol_startElement_def
        LsCol_endElement_def LsCol_property_def readElementText_def readContentsAsString_def
        chopSlash_def suffix_to_prefix Let_def fromPercentEncoding.simps)

text \<open>
  C2, amended: if the percent-decoded text of a \<open>DAV:href\<close> element that the parser's loop
  reads, one that is not inside the content of a property, does not start with the
  expected request path, the parse fails and nothing is emitted from that point on, while
  the entries already emitted remain. In whatever state the loop reads the start tag of a
  \<open>DAV:href\<close>, and whatever follows it, the loop returns false at once with its state, and
  so the signals emitted so far, unchanged. Hence for every input: if after some number
  of turns of its loop the parser is about to read such a start tag, the parse returns
  false and what it has emitted, and the sizes it has recorded, are those of the state
  reached then. In a multistatus body whose responses \<open>rs\<close>
  are in order and whose next response \<open>bad\<close> has a href outside the expected path, the
  parse returns false and has emitted exactly the entries of \<open>rs\<close>: no entry for \<open>bad\<close>,
  none for the responses \<open>rs'\<close> after it, no folder list and no success signal.
\<close>

theorem LsCol_href_outside_expected_path:
  "(c \<noteq> Invalid \<and> c \<noteq> EndDocument
      \<and> \<not> prefix expectedPath
            (fromPercentEncoding (fst (readElementText (StartElement ''DAV:'' ''href'', ts))))
     \<longrightarrow> fst (LsCol_loop expectedPath (c, StartElement ''DAV:'' ''href'' # ts) s) = False
         \<and> snd (snd (LsCol_loop expectedPath (c, StartElement ''DAV:'' ''href'' # ts) s)) = s)
   \<and> (list_all well_formed_response rs
        \<and> list_all (\<lambda>r. prefix expectedPath (response_href r)) rs
        \<and> \<not> prefix expectedPath (response_href bad) \<and> ignorable ws
     \<longrightarrow> LsColXMLParser_parse (document_tokens (multistatus_xml ws (rs @ bad # rs'))) sizes0 expectedPath
           = (False, map response_entry rs, map_option (fold response_sizes rs) sizes0))
   \<and> (LsCol_steps expectedPath n (NoToken, xml) (initial_state sizes0)
          = Some ((c, StartElement ''DAV:'' ''href'' # ts), s)
        \<and> c \<noteq> Invalid \<and> c \<noteq> EndDocument
        \<and> \<not> prefix expectedPath
              (fromPercentEncoding (fst (readElementText (StartElement ''DAV:'' ''href'', ts))))
     \<longrightarrow> LsColXMLParser_parse xml sizes0 expectedPath = (False, emitted s, sizes s))"
proof -
  have p: "LsColXMLParser_parse xml sizes0 expectedPath = (False, emitted s, sizes s)"
    if "LsCol_steps expectedPath n (NoToken, xml) (initial_state sizes0)
          = Some ((c, StartElement ''DAV:'' ''href'' # ts), s)"
      "c \<noteq> Invalid" "c \<noteq> EndDocument"
      "\<not> prefix expectedPath
            (fromPercentEncoding (fst (readElementText (StartElement ''DAV:'' ''href'', ts))))"
    unfolding LsColXMLParser_parse_loop LsCol_loop_steps [OF that(1)]
      LsCol_loop_href_mismatch [OF that(2,3,4)]
    by simp
  have a: "fst (LsCol_loop expectedPath (c, StartElement ''DAV:'' ''href'' # ts) s) = False
         \<and> snd (snd (LsCol_loop expectedPath (c, StartElement ''DAV:'' ''href'' # ts) s)) = s"
    if "c \<noteq> Invalid" "c \<noteq> EndDocument"
      "\<not> prefix expectedPath
            (fromPercentEncoding (fst (readElementText (StartElement ''DAV:'' ''href'', ts))))"
    using LsCol_loop_href_mismatch [OF that] by simp
  have b: "LsColXMLParser_parse (document_tokens (multistatus_xml ws (rs @ bad # rs'))) sizes0 expectedPath
           = (False, map response_entry rs, map_option (fold response_sizes rs) sizes0)"
    if "list_all well_formed_response rs" "list_all (\<lambda>r. prefix expectedPath (response_href r)) rs"
      "\<not> prefix expectedPath (response_href bad)" "ignorable ws"
    unfolding document_tokens_split by (rule LsColXMLParser_parse_bad_href [OF that])
  from a b p show ?thesis by blast
qed

theorem LsCol_href_outside_expected_path_witness:
  "\<not> prefix ''/dav'' (fromPercentEncoding (fst (readElementText
        (StartElement ''DAV:'' ''href'', [Characters ''/x'', EndElement ''DAV:'' ''href'']))))
   \<and> fst (LsCol_loop ''/dav'' (StartElement ''DAV:'' ''response'',
        [StartElement ''DAV:'' ''href'', Characters ''/x'', EndElement ''DAV:'' ''href''])
        (initial_state None)) = False
   \<and> \<not> prefix ''/dav'' (response_href (Response ''/etc/passwd'' []))
   \<and> LsColXMLParser_parse (document_tokens (multistatus_xml []
        ([Response ''/dav/a'' [Propstat [Property ''DAV:'' ''getetag'' [Text ''x1'']] ''HTTP/1.1 200 OK'']]
         @ Response ''/etc/passwd'' []
         # [Response ''/dav/b'' [Propstat [Property ''DAV:'' ''getetag'' [Text ''x2'']] ''HTTP/1.1 200 OK'']])))
        None ''/dav''
     = (False, [DirectoryListingIterated ''/dav/a'' [''getetag'' \<mapsto> ''x1'']], None)
   \<and> LsColXMLParser_parse
        [StartElement ''DAV:'' ''response'', StartElement ''DAV:'' ''href'', Characters ''/x'',
         EndElement ''DAV:'' ''href'']
        None ''/dav''
     = (False, [], None)"
proof -
  let ?ts = "[Characters ''/x'', EndElement ''DAV:'' ''href'']"
  let ?rs = "[Response ''/dav/a'' [Propstat [Property ''DAV:'' ''getetag'' [Text ''x1'']] ''HTTP/1.1 200 OK'']]"
  let ?rs' = "[Response ''/dav/b'' [Propstat [Property ''DAV:'' ''getetag'' [Text ''x2'']] ''HTTP/1.1 200 OK'']]"
  have h1: "\<not> prefix ''/dav'' (fromPercentEncoding (fst (readElementText
        (StartElement ''DAV:'' ''href'', ?ts))))"
    by (simp add: readElementText_def)
  have h2: "list_all well_formed_response ?rs"
    by (simp add: well_formed_response_def response_properties_def reserved_name_def)
  have h3: "list_all (\<lambda>r. prefix ''/dav'' (response_href r)) ?rs"
    by (simp add: response_href_def)
  have h4: "\<not> prefix ''/dav'' (response_href (Response ''/etc/passwd'' []))"
    by (simp add: response_href_def)
  have h5: "ignorable []" by (simp add: ignorable_def)
  have h6: "LsCol_steps ''/dav'' (Suc 0)
              (NoToken, StartElement ''DAV:'' ''response'' # StartElement ''DAV:'' ''href'' # ?ts)
              (initial_state None)
            = Some ((StartElement ''DAV:'' ''response'', StartElement ''DAV:'' ''href'' # ?ts),
                    initial_state None)"
    by (simp add: atEnd_def readNext_def LsCol_iteration_def LsCol_startElement_def
        initial_state_def)
  note inst = LsCol_href_outside_expected_path
    [of "StartElement ''DAV:'' ''response''" "''/dav''" "?ts" "initial_state None" "?rs"
        "Response ''/etc/passwd'' []" "[]" "?rs'" None "Suc 0"
        "StartElement ''DAV:'' ''response'' # StartElement ''DAV:'' ''href'' # ?ts"]
  from inst h1 have
    "fst (LsCol_loop ''/dav'' (StartElement ''DAV:'' ''response'', StartElement ''DAV:'' ''href'' # ?ts)
        (initial_state None)) = False"
    by simp
  moreover from inst h2 h3 h4 h5 have
    "LsColXMLParser_parse (document_tokens (multistatus_xml []
        (?rs @ Response ''/etc/passwd'' [] # ?rs'))) None ''/dav''
     = (False, map response_entry ?rs, map_option (fold response_sizes ?rs) None)"
    by blast
  moreover from inst h1 h6 have
    "LsColXMLParser_parse
        (StartElement ''DAV:'' ''response'' # StartElement ''DAV:'' ''href'' # ?ts) None ''/dav''
     = (False, emitted (initial_state None), sizes (initial_state None))"
    by blast
  ultimately show ?thesis
    using h1 h4
    by (simp add: response_entry_def response_href_def published_properties_def
        is_http200_def block_properties_def insert_property_def property_value_def chopSlash_def
        suffix_to_prefix initial_state_def)
qed


lemma fold_record_size_not_numeric:
  "list_all (\<lambda>p. prop_name p = ''size'' \<longrightarrow> toLongLong (property_value p) = None) ps
   \<Longrightarrow> fold (record_size h) ps m = m"
  by (induction ps arbitrary: m) (simp_all add: record_size_def)

lemma fold_response_sizes_not_numeric:
  "list_all (\<lambda>r. list_all (\<lambda>p. prop_name p = ''size'' \<longrightarrow> toLongLong (property_value p) = None)
                     (response_properties r)) rs
   \<Longrightarrow> fold response_sizes rs m = m"
  by (induction rs arbitrary: m) (simp_all add: response_sizes_def fold_record_size_not_numeric)

lemma fold_insert_property_other:
  "list_all (\<lambda>q. prop_name q \<noteq> n) ps \<Longrightarrow> fold insert_property ps m n = m n"
  by (induction ps arbitrary: m) (auto simp: insert_property_def)

text \<open>
  C7, as stated, fails: a \<open>size\<close> property whose text is no number does not fail the parse.
  \<open>toLongLong\<close> reports \<open>ok = false\<close>, the guard \<open>if (ok && sizes)\<close> skips the insertion
  into the sizes map, and the parser goes on: the property is stored like any other, the
  entry is emitted and the parse returns true.
\<close>

theorem LsCol_size_not_numeric_counterexample:
  "toLongLong ''abc'' = None
   \<and> LsColXMLParser_parse
        (document_tokens (multistatus_xml []
           [Response ''/dav/f''
              [Propstat [Property ''http://owncloud.org/ns'' ''size'' [Text ''abc'']]
                 ''HTTP/1.1 200 OK'']]))
        (Some Map.empty) ''/dav''
     = (True,
        [DirectoryListingIterated ''/dav/f'' [''size'' \<mapsto> ''abc''],
         DirectoryListingSubfolders [], FinishedWithoutError],
        Some Map.empty)"
  by (simp add: document_tokens_def multistatus_xml_def pad_def LsColXMLParser_parse_def
        LsCol_loop.simps LsCol_iteration_def readNext_def atEnd_def hasError_def LsCol_startElement_def
        LsCol_endElement_def LsCol_property_def readElementText_def readContentsAsString_def
        chopSlash_def suffix_to_prefix Let_def
        toLongLong_def trimmed_def isSpace_def isDigit_def)

text \<open>
  C7, amended: a \<open>size\<close> property whose text does not parse as a number does not fail the
  parse. For every well-formed multistatus body the parse returns true, whatever its
  \<open>size\<close> properties hold. The sizes map it leaves is the one built from the properties
  whose text is a number: a \<open>size\<close> whose text is none leaves the map as it was, and when
  no \<open>size\<close> of the body is a number the caller's map comes back unchanged. The property
  itself is stored like any other: the entry emitted for a response whose last block with
  a 200 status holds the property (and no later property of the same name) maps the
  property's name to its text.
\<close>

theorem LsCol_size_not_numeric:
  assumes "list_all well_formed_response rs"
    and "list_all (\<lambda>r. prefix expectedPath (response_href r)) rs"
    and "ignorable ws"
  shows "fst (LsColXMLParser_parse (document_tokens (multistatus_xml ws rs)) sizes0 expectedPath) = True
         \<and> snd (snd (LsColXMLParser_parse (document_tokens (multistatus_xml ws rs)) sizes0 expectedPath))
             = map_option (fold response_sizes rs) sizes0
         \<and> (\<forall>h p m. prop_name p = ''size'' \<and> toLongLong (property_value p) = None
                \<longrightarrow> record_size h p m = m)
         \<and> (list_all (\<lambda>r. list_all (\<lambda>p. prop_name p = ''size'' \<longrightarrow> toLongLong (property_value p) = None)
                              (response_properties r)) rs
              \<longrightarrow> snd (snd (LsColXMLParser_parse (document_tokens (multistatus_xml ws rs)) sizes0 expectedPath))
                    = sizes0)
         \<and> (\<forall>i h bs ps p ps' st bs'.
                i < length rs \<and> rs ! i = Response h (bs @ Propstat (ps @ p # ps') st # bs')
                \<and> prefix ''HTTP/1.1 200'' st \<and> list_all (\<lambda>b. \<not> is_http200 b) bs'
                \<and> list_all (\<lambda>q. prop_name q \<noteq> prop_name p) ps'
              \<longrightarrow> fst (snd (LsColXMLParser_parse (document_tokens (multistatus_xml ws rs)) sizes0 expectedPath)) ! i
                    = DirectoryListingIterated (chopSlash (fromPercentEncoding h)) (published_properties (rs ! i))
                  \<and> published_properties (rs ! i) (prop_name p) = Some (property_value p))"
proof -
  note parse = LsColXMLParser_parse_multistatus [OF assms, of sizes0]
  have c3: "record_size h p m = m"
    if "prop_name p = ''size''" "toLongLong (property_value p) = None" for h p m
    using that by (simp add: record_size_def)
  have c4: "snd (snd (LsColXMLParser_parse (document_tokens (multistatus_xml ws rs)) sizes0 expectedPath))
              = sizes0"
    if "list_all (\<lambda>r. list_all (\<lambda>p. prop_name p = ''size'' \<longrightarrow> toLongLong (property_value p) = None)
                              (response_properties r)) rs"
    using fold_response_sizes_not_numeric [OF that] parse
    by (cases sizes0) simp_all
  have c5: "fst (snd (LsColXMLParser_parse (document_tokens (multistatus_xml ws rs)) sizes0 expectedPath)) ! i
              = DirectoryListingIterated (chopSlash (fromPercentEncoding h)) (published_properties (rs ! i))
            \<and> published_properties (rs ! i) (prop_name p) = Some (property_value p)"
    if "i < length rs" "rs ! i = Response h (bs @ Propstat (ps @ p # ps') st # bs')"
      "prefix ''HTTP/1.1 200'' st" "list_all (\<lambda>b. \<not> is_http200 b) bs'"
      "list_all (\<lambda>q. prop_name q \<noteq> prop_name p) ps'"
    for i h bs ps p ps' st bs'
  proof -
    have "fst (snd (LsColXMLParser_parse (document_tokens (multistatus_xml ws rs)) sizes0 expectedPath)) ! i
          = response_entry (rs ! i)"
      using that(1) by (simp add: parse nth_append)
    moreover have "is_http200 (Propstat (ps @ p # ps') st)"
      by (simp add: is_http200_def that(3))
    then have "published_properties (rs ! i) = block_properties (Propstat (ps @ p # ps') st)"
      unfolding that(2) by (rule published_properties_last [OF _ that(4)])
    moreover have "block_properties (Propstat (ps @ p # ps') st) (prop_name p) = Some (property_value p)"
      using fold_insert_property_other [OF that(5)]
      by (simp add: block_properties_def insert_property_def)
    ultimately show ?thesis
      by (simp add: response_entry_def response_href_def that(2))
  qed
  have c1: "fst (LsColXMLParser_parse (document_tokens (multistatus_xml ws rs)) sizes0 expectedPath) = True"
    by (simp add: parse)
  have c2: "snd (snd (LsColXMLParser_parse (document_tokens (multistatus_xml ws rs)) sizes0 expectedPath))
             = map_option (fold response_sizes rs) sizes0"
    by (simp add: parse)
  from c1 c2 c3 c4 c5 show ?thesis by blast
qed

theorem LsCol_size_not_numeric_witness:
  "list_all well_formed_response
     [Response ''/dav/f''
        [Propstat [Property ''http://owncloud.org/ns'' ''size'' [Text ''12 MB'']] ''HTTP/1.1 200 OK'']]
   \<and> toLongLong (property_value (Property ''http://owncloud.org/ns'' ''size'' [Text ''12 MB''])) = None
   \<and> fst (LsColXMLParser_parse
        (document_tokens (multistatus_xml []
           [Response ''/dav/f''
              [Propstat [Property ''http://owncloud.org/ns'' ''size'' [Text ''12 MB'']]
                 ''HTTP/1.1 200 OK'']]))
        (Some Map.empty) ''/dav'') = True
   \<and> snd (snd (LsColXMLParser_parse
        (document_tokens (multistatus_xml []
           [Response ''/dav/f''
              [Propstat [Property ''http://owncloud.org/ns'' ''size'' [Text ''12 MB'']]
                 ''HTTP/1.1 200 OK'']]))
        (Some Map.empty) ''/dav'')) = Some Map.empty
   \<and> fst (snd (LsColXMLParser_parse
        (document_tokens (multistatus_xml []
           [Response ''/dav/f''
              [Propstat [Property ''http://owncloud.org/ns'' ''size'' [Text ''12 MB'']]
                 ''HTTP/1.1 200 OK'']]))
        (Some Map.empty) ''/dav'')) ! 0
     = DirectoryListingIterated ''/dav/f'' [''size'' \<mapsto> ''12 MB'']"
proof -
  let ?p = "Property ''http://owncloud.org/ns'' ''size'' [Text ''12 MB'']"
  let ?r = "Response ''/dav/f'' [Propstat [?p] ''HTTP/1.1 200 OK'']"
  let ?rs = "[?r]"
  have wf: "list_all well_formed_response ?rs"
    by (simp add: well_formed_response_def response_properties_def reserved_name_def)
  have good: "list_all (\<lambda>r. prefix ''/dav'' (response_href r)) ?rs"
    by (simp add: response_href_def)
  have ign: "ignorable []" by (simp add: ignorable_def)
  have nan: "toLongLong (property_value ?p) = None"
    by (simp add: property_value_def toLongLong_def trimmed_def isSpace_def isDigit_def)
  have all_nan: "list_all (\<lambda>r. list_all (\<lambda>p. prop_name p = ''size'' \<longrightarrow> toLongLong (property_value p) = None)
                              (response_properties r)) ?rs"
    using nan by (simp add: response_properties_def)
  have shape: "?rs ! 0 = Response ''/dav/f'' ([] @ Propstat ([] @ ?p # []) ''HTTP/1.1 200 OK'' # [])"
    by simp
  have pub: "published_properties ?r = [''size'' \<mapsto> ''12 MB'']"
    by (simp add: published_properties_def is_http200_def block_properties_def insert_property_def
        property_value_def)
  note inst = LsCol_size_not_numeric [OF wf good ign, of "Some Map.empty"]
  from inst have t: "fst (LsColXMLParser_parse (document_tokens (multistatus_xml [] ?rs))
        (Some Map.empty) ''/dav'') = True"
    by blast
  from inst all_nan have sz: "snd (snd (LsColXMLParser_parse (document_tokens (multistatus_xml [] ?rs))
        (Some Map.empty) ''/dav'')) = Some Map.empty"
    by blast
  from inst have "0 < length ?rs \<and> ?rs ! 0 = Response ''/dav/f'' ([] @ Propstat ([] @ ?p # []) ''HTTP/1.1 200 OK'' # [])
                \<and> prefix ''HTTP/1.1 200'' ''HTTP/1.1 200 OK'' \<and> list_all (\<lambda>b. \<not> is_http200 b) []
                \<and> list_all (\<lambda>q. prop_name q \<noteq> prop_name ?p) []
       \<longrightarrow> fst (snd (LsColXMLParser_parse (document_tokens (multistatus_xml [] ?rs)) (Some Map.empty) ''/dav'')) ! 0
                    = DirectoryListingIterated (chopSlash (fromPercentEncoding ''/dav/f'')) (published_properties (?rs ! 0))"
    by blast
  then have en: "fst (snd (LsColXMLParser_parse (document_tokens (multistatus_xml [] ?rs)) (Some Map.empty) ''/dav'')) ! 0
                    = DirectoryListingIterated ''/dav/f'' [''size'' \<mapsto> ''12 MB'']"
    using pub by (simp add: chopSlash_def suffix_to_prefix)
  from wf nan t sz en show ?thesis by blast
qed

text \<open>
  C9: folder classification and size recording are done for the properties of every
  \<open>propstat\<close> block, whatever the block's status. Replacing the status lines of a
  well-formed body by any others (\<open>with_status f\<close>) changes the published property
  mappings only: the folder list and the sizes map are those of the original body. The
  folder list holds the response's href once for every \<open>resourcetype\<close> property, in any
  block, whose text contains \<open>collection\<close>; the sizes map is built from every \<open>size\<close>
  property, in any block, whose text is a number.
\<close>

theorem LsCol_folders_sizes_not_gated:
  assumes "list_all well_formed_response rs"
    and "list_all (\<lambda>r. prefix expectedPath (response_href r)) rs"
    and "ignorable ws"
  shows "LsColXMLParser_parse (document_tokens (multistatus_xml ws (map (with_status f) rs)))
           sizes0 expectedPath
         = (True,
            map response_entry (map (with_status f) rs)
              @ [DirectoryListingSubfolders (concat (map response_folders rs)), FinishedWithoutError],
            map_option (fold response_sizes rs) sizes0)
         \<and> (\<forall>r. response_folders r
                = concat (map (\<lambda>b. concat (map (\<lambda>p.
                     if prop_name p = ''resourcetype'' \<and> sublist ''collection'' (property_value p)
                     then [response_href r] else []) (ps_props b))) (resp_propstats r)))
         \<and> (\<forall>r m. response_sizes r m
                = fold (\<lambda>b. fold (\<lambda>p m.
                     if prop_name p = ''size''
                     then (case toLongLong (property_value p) of
                             None \<Rightarrow> m | Some n \<Rightarrow> m(response_href r \<mapsto> n))
                     else m) (ps_props b)) (resp_propstats r) m)"
proof -
  have href: "response_href (with_status f r) = response_href r" for r
    by (simp add: with_status_def response_href_def)
  have props: "response_properties (with_status f r) = response_properties r" for r
    by (simp add: with_status_def response_properties_def comp_def)
  have wf: "list_all well_formed_response (map (with_status f) rs)"
    using assms(1) by (simp add: list_all_iff well_formed_response_def props)
  have good: "list_all (\<lambda>r. prefix expectedPath (response_href r)) (map (with_status f) rs)"
    using assms(2) by (simp add: list_all_iff href)
  have folders: "map response_folders (map (with_status f) rs) = map response_folders rs"
    by (simp add: response_folders_def href props)
  have "response_sizes \<circ> with_status f = response_sizes"
    by (rule ext) (simp add: response_sizes_def href props)
  then have sizes': "fold response_sizes (map (with_status f) rs) = fold response_sizes rs"
    by (simp add: fold_map)
  have folders_eq: "response_folders r
                = concat (map (\<lambda>b. concat (map (\<lambda>p.
                     if prop_name p = ''resourcetype'' \<and> sublist ''collection'' (property_value p)
                     then [response_href r] else []) (ps_props b))) (resp_propstats r))" for r
  proof -
    have "map (\<lambda>p. h) (filter is_collection ps)
          = concat (map (\<lambda>p. if prop_name p = ''resourcetype'' \<and> sublist ''collection'' (property_value p)
                              then [h] else []) ps)" for h :: string and ps
      by (induction ps) (simp_all add: is_collection_def)
    moreover have "map (\<lambda>p. h) (filter is_collection (concat pss))
          = concat (map (\<lambda>ps. map (\<lambda>p. h) (filter is_collection ps)) pss)" for h :: string and pss
      by (induction pss) simp_all
    ultimately show ?thesis
      by (simp add: response_folders_def response_properties_def comp_def)
  qed
  have sizes_eq: "response_sizes r m
                = fold (\<lambda>b. fold (\<lambda>p m.
                     if prop_name p = ''size''
                     then (case toLongLong (property_value p) of
                             None \<Rightarrow> m | Some n \<Rightarrow> m(response_href r \<mapsto> n))
                     else m) (ps_props b)) (resp_propstats r) m" for r m
  proof -
    have "fold g (concat pss) m' = fold (\<lambda>ps. fold g ps) pss m'"
      for g :: "property \<Rightarrow> (string \<rightharpoonup> int) \<Rightarrow> (string \<rightharpoonup> int)" and pss m'
      by (induction pss arbitrary: m') simp_all
    then show ?thesis
      by (simp add: response_sizes_def response_properties_def record_size_def [abs_def] fold_map comp_def)
  qed
  have main: "LsColXMLParser_parse (document_tokens (multistatus_xml ws (map (with_status f) rs)))
           sizes0 expectedPath
         = (True,
            map response_entry (map (with_status f) rs)
              @ [DirectoryListingSubfolders (concat (map response_folders rs)), FinishedWithoutError],
            map_option (fold response_sizes rs) sizes0)"
    using LsColXMLParser_parse_multistatus [OF wf good assms(3), of sizes0]
    unfolding folders sizes' .
  from main folders_eq sizes_eq show ?thesis by blast
qed

theorem LsCol_folders_sizes_not_gated_witness:
  "list_all well_formed_response
     [Response ''/dav/d/''
        [Propstat [Property ''DAV:'' ''resourcetype'' [Element ''DAV:'' ''collection'' []],
                   Property ''http://owncloud.org/ns'' ''size'' [Text ''42'']] ''HTTP/1.1 200 OK'']]
   \<and> LsColXMLParser_parse
        (document_tokens (multistatus_xml []
           [Response ''/dav/d/''
              [Propstat [Property ''DAV:'' ''resourcetype'' [Element ''DAV:'' ''collection'' []],
                         Property ''http://owncloud.org/ns'' ''size'' [Text ''42'']]
                 ''HTTP/1.1 404 Not Found'']]))
        (Some Map.empty) ''/dav''
     = (True,
        [DirectoryListingIterated ''/dav/d'' Map.empty,
         DirectoryListingSubfolders [''/dav/d/''], FinishedWithoutError],
        Some [''/dav/d/'' \<mapsto> 42])"
proof -
  let ?rs = "[Response ''/dav/d/''
        [Propstat [Property ''DAV:'' ''resourcetype'' [Element ''DAV:'' ''collection'' []],
                   Property ''http://owncloud.org/ns'' ''size'' [Text ''42'']] ''HTTP/1.1 200 OK'']]"
  have wf: "list_all well_formed_response ?rs"
    by (simp add: well_formed_response_def response_properties_def reserved_name_def)
  have good: "list_all (\<lambda>r. prefix ''/dav'' (response_href r)) ?rs"
    by (simp add: response_href_def)
  have ign: "ignorable []" by (simp add: ignorable_def)
  have n: "toLongLong ''42'' = Some 42"
    by (simp add: toLongLong_def trimmed_def isSpace_def isDigit_def decimal_def)
  have c: "sublist ''collection'' ''<collection></collection>''"
    by (simp add: sublist_Cons_right)
  from LsCol_folders_sizes_not_gated
    [OF wf good ign, of "\<lambda>b. ''HTTP/1.1 404 Not Found''" "Some Map.empty"] wf n c
  show ?thesis
    by (simp add: with_status_def response_entry_def response_href_def published_properties_def
        is_http200_def property_value_def chopSlash_def suffix_to_prefix)
qed

section \<open>Properties of \<open>DetermineAuthTypeJob\<close>\<close>

lemma sublist_map_iff:
  "sublist ys (map f xs) \<longleftrightarrow> (\<exists>a w b. xs = a @ w @ b \<and> map f w = ys)"
proof
  assume "sublist ys (map f xs)"
  then obtain p s where "map f xs = p @ ys @ s" by (auto simp: sublist_def)
  then obtain a r where a: "xs = a @ r" "map f r = ys @ s"
    by (metis map_eq_append_conv)
  then obtain w b where "r = w @ b" "map f w = ys"
    by (metis map_eq_append_conv)
  with a show "\<exists>a w b. xs = a @ w @ b \<and> map f w = ys" by blast
next
  assume "\<exists>a w b. xs = a @ w @ b \<and> map f w = ys"
  then obtain a w b where "xs = a @ w @ b" "map f w = ys" by blast
  then have "map f xs = map f a @ ys @ map f b" by simp
  then show "sublist ys (map f xs)" by (auto simp: sublist_def)
qed

text \<open>
  C4, as stated, fails: the test is for \<open>bearer\<close> followed by a space, not for the word
  alone. The header \<open>Bearer\<close> contains \<open>bearer\<close>, compared without regard to case, and is
  classified as Basic.
\<close>

theorem DetermineAuthTypeJob_bearer_counterexample:
  "sublist ''bearer'' (toLower (rawHeader (Some ''Bearer'')))
   \<and> DetermineAuthTypeJob_finished (Some ''Bearer'') = [LogInfo Basic, EmitAuthType Basic, DeleteLater]"
  by (simp add: DetermineAuthTypeJob_finished_def toLower_def toLower_char_def Let_def
      sublist_Cons_right char_of_def bit_Suc_0_iff)

text \<open>
  C4, amended: the classification is a function of the \<open>WWW-Authenticate\<close> header,
  compared without regard to case. If the header contains \<open>bearer\<close> followed by a space
  (as in \<open>Bearer realm="x"\<close>) the result is OAuth; if the header is absent or empty the
  result is Basic, with a logged warning; any other header (as \<open>Basic realm="x"\<close>) yields
  Basic without a warning. The probe reports exactly one result and then deletes itself.
\<close>

theorem DetermineAuthTypeJob_classification:
  \<open>((\<exists>a w b. rawHeader h = a @ w @ b \<and> toLower w = ''bearer '')
      \<longrightarrow> DetermineAuthTypeJob_finished h = [LogInfo OAuth, EmitAuthType OAuth, DeleteLater])
   \<and> (rawHeader h = []
      \<longrightarrow> DetermineAuthTypeJob_finished h
            = [LogWarning ''Did not receive WWW-Authenticate reply to auth-test PROPFIND'',
               LogInfo Basic, EmitAuthType Basic, DeleteLater])
   \<and> (rawHeader h \<noteq> [] \<and> \<not> (\<exists>a w b. rawHeader h = a @ w @ b \<and> toLower w = ''bearer '')
      \<longrightarrow> DetermineAuthTypeJob_finished h = [LogInfo Basic, EmitAuthType Basic, DeleteLater])
   \<and> DetermineAuthTypeJob_finished (Some ''Bearer realm="x"'') = [LogInfo OAuth, EmitAuthType OAuth, DeleteLater]
   \<and> DetermineAuthTypeJob_finished (Some ''Basic realm="x"'') = [LogInfo Basic, EmitAuthType Basic, DeleteLater]
   \<and> length (filter isEmitAuthType (DetermineAuthTypeJob_finished h)) = 1
   \<and> last (DetermineAuthTypeJob_finished h) = DeleteLater\<close>
proof -
  have iff: "sublist ''bearer '' (toLower (rawHeader h))
             \<longleftrightarrow> (\<exists>a w b. rawHeader h = a @ w @ b \<and> toLower w = ''bearer '')"
    unfolding toLower_def by (rule sublist_map_iff)
  have empty: "\<not> sublist ''bearer '' (toLower [])"
    by (simp add: toLower_def)
  have ex: \<open>DetermineAuthTypeJob_finished (Some ''Bearer realm="x"'') = [LogInfo OAuth, EmitAuthType OAuth, DeleteLater]
     \<and> DetermineAuthTypeJob_finished (Some ''Basic realm="x"'') = [LogInfo Basic, EmitAuthType Basic, DeleteLater]\<close>
    by (simp add: DetermineAuthTypeJob_finished_def toLower_def toLower_char_def Let_def
      sublist_Cons_right char_of_def bit_Suc_0_iff)
  show ?thesis
    using ex empty unfolding iff [symmetric]
    by (auto simp: DetermineAuthTypeJob_finished_def Let_def toLower_def)
qed

theorem DetermineAuthTypeJob_classification_witness:
  \<open>rawHeader (Some ''Negotiate, BEARER realm="x"'') = ''Negotiate, '' @ ''BEARER '' @ ''realm="x"''
   \<and> toLower ''BEARER '' = ''bearer ''
   \<and> DetermineAuthTypeJob_finished (Some ''Negotiate, BEARER realm="x"'')
       = [LogInfo OAuth, EmitAuthType OAuth, DeleteLater]
   \<and> DetermineAuthTypeJob_finished None
       = [LogWarning ''Did not receive WWW-Authenticate reply to auth-test PROPFIND'',
          LogInfo Basic, EmitAuthType Basic, DeleteLater]\<close>
proof -
  have h1: \<open>rawHeader (Some ''Negotiate, BEARER realm="x"'') = ''Negotiate, '' @ ''BEARER '' @ ''realm="x"''\<close>
    by simp
  have h2: "toLower ''BEARER '' = ''bearer ''"
    by (simp add: toLower_def toLower_char_def char_of_def bit_Suc_0_iff)
  have h3: "rawHeader None = []" by simp
  from DetermineAuthTypeJob_classification [of \<open>Some ''Negotiate, BEARER realm="x"''\<close>] h1 h2
  have \<open>DetermineAuthTypeJob_finished (Some ''Negotiate, BEARER realm="x"'')
       = [LogInfo OAuth, EmitAuthType OAuth, DeleteLater]\<close>
    by blast
  moreover from DetermineAuthTypeJob_classification [of None] h3
  have "DetermineAuthTypeJob_finished None
       = [LogWarning ''Did not receive WWW-Authenticate reply to auth-test PROPFIND'',
          LogInfo Basic, EmitAuthType Basic, DeleteLater]"
    by blast
  ultimately show ?thesis using h1 h2 by blast
qed

section \<open>Properties of \<open>CheckServerJob::finished\<close>\<close>

text \<open>
  C3, as stated, fails: a reply whose error is \<open>TooManyRedirectsError\<close> is reported as
  "instance not found" before the body and the status are looked at, also when all four
  conditions hold.
\<close>

theorem CheckServerJob_too_many_redirects_counterexample:
  \<open>discovery_success
      (\<lambda>b. if b = ''{"installed":true}'' then JsonObject [''installed'' \<mapsto> True] else JsonInvalid)
      \<lparr>error = TooManyRedirectsError, httpStatus = 200, replyBody = ''{"installed":true}'',
       targetUrl = ''https://cloud.example''\<rparr>
   \<and> CheckServerJob_finished
      (\<lambda>b. if b = ''{"installed":true}'' then JsonObject [''installed'' \<mapsto> True] else JsonInvalid)
      (CheckServerJob_new ''https://cloud.example'')
      \<lparr>error = TooManyRedirectsError, httpStatus = 200, replyBody = ''{"installed":true}'',
       targetUrl = ''https://cloud.example''\<rparr>
     = (True, CheckServerJob_new ''https://cloud.example'', [InstanceNotFound])\<close>
  by (simp add: discovery_success_def CheckServerJob_finished_def CheckServerJob_new_def Let_def)

text \<open>
  C3, amended: for every completion that is not the fallback retry, the job is done and
  reports one outcome (after the redirect notice, if the target URL differs): success if
  and only if the reply's error is not "too many redirects", the body (its first 4096
  bytes, which the job reads) is not empty, the status is 200, the body is valid JSON and
  the JSON object has a field \<open>installed\<close>; in every other case "instance not found".
\<close>

theorem CheckServerJob_discovery_outcome:
  assumes "\<not> (error r = ContentNotFoundError \<and> \<not> subdirFallback job)"
  shows "CheckServerJob_finished fromJson job r
         = (True, job,
            (if serverUrl job \<noteq> targetUrl r then [RedirectDetected (serverUrl job) (targetUrl r)] else [])
            @ [if error r \<noteq> TooManyRedirectsError \<and> discovery_success fromJson r
               then InstanceFound (targetUrl r) (object (fromJson (take 4096 (replyBody r))))
               else InstanceNotFound])"
proof -
  have "''installed'' \<in> dom (object d) \<Longrightarrow> d \<noteq> JsonInvalid" for d :: "'a JsonDocument"
    by auto
  then show ?thesis
    using assms
    by (auto simp: CheckServerJob_finished_def discovery_success_def Let_def)
qed

theorem CheckServerJob_discovery_outcome_witness:
  \<open>CheckServerJob_finished
      (\<lambda>b. if b = ''{"installed":true}'' then JsonObject [''installed'' \<mapsto> True] else JsonInvalid)
      (CheckServerJob_new ''https://cloud.example'')
      \<lparr>error = NoError, httpStatus = 200, replyBody = ''{"installed":true}'',
       targetUrl = ''https://cloud.example''\<rparr>
     = (True, CheckServerJob_new ''https://cloud.example'',
        [InstanceFound ''https://cloud.example'' [''installed'' \<mapsto> True]])
   \<and> CheckServerJob_finished
      (\<lambda>b. if b = ''{"installed":true}'' then JsonObject [''installed'' \<mapsto> True] else JsonInvalid)
      (CheckServerJob_new ''https://cloud.example'')
      \<lparr>error = NoError, httpStatus = 503, replyBody = ''{"installed":true}'',
       targetUrl = ''https://cloud.example''\<rparr>
     = (True, CheckServerJob_new ''https://cloud.example'', [InstanceNotFound])\<close>
proof -
  let ?fj = \<open>\<lambda>b. if b = ''{"installed":true}'' then JsonObject [''installed'' \<mapsto> True] else JsonInvalid\<close>
  let ?job = "CheckServerJob_new ''https://cloud.example''"
  let ?ok = \<open>\<lparr>error = NoError, httpStatus = 200, replyBody = ''{"installed":true}'',
       targetUrl = ''https://cloud.example''\<rparr>\<close>
  let ?down = \<open>\<lparr>error = NoError, httpStatus = 503, replyBody = ''{"installed":true}'',
       targetUrl = ''https://cloud.example''\<rparr>\<close>
  have h1: "\<not> (error ?ok = ContentNotFoundError \<and> \<not> subdirFallback ?job)" by simp
  have h2: "\<not> (error ?down = ContentNotFoundError \<and> \<not> subdirFallback ?job)" by simp
  from CheckServerJob_discovery_outcome [OF h1, of ?fj] CheckServerJob_discovery_outcome [OF h2, of ?fj]
  show ?thesis
    by (simp add: discovery_success_def CheckServerJob_new_def)
qed

section \<open>Properties of the fallback retry\<close>

lemma CheckServerJob_finished_after_fallback:
  "subdirFallback job \<Longrightarrow> fst (CheckServerJob_finished fromJson job r)
   \<and> list_all (\<lambda>e. \<not> isSendRequest e) (snd (snd (CheckServerJob_finished fromJson job r)))"
  by (simp add: CheckServerJob_finished_def Let_def)

lemma CheckServerJob_finished_no_retry:
  "error r \<noteq> ContentNotFoundError \<Longrightarrow> fst (CheckServerJob_finished fromJson job r)
   \<and> list_all (\<lambda>e. \<not> isSendRequest e) (snd (snd (CheckServerJob_finished fromJson job r)))"
  by (simp add: CheckServerJob_finished_def Let_def)

lemma CheckServerJob_replies_Cons:
  "CheckServerJob_replies fromJson job (r # rs)
   = (if fst (CheckServerJob_finished fromJson job r)
      then snd (snd (CheckServerJob_finished fromJson job r))
      else snd (snd (CheckServerJob_finished fromJson job r))
           @ CheckServerJob_replies fromJson (fst (snd (CheckServerJob_finished fromJson job r))) rs)"
  by (simp split: prod.split)

declare CheckServerJob_replies.simps(2) [simp del]

lemma CheckServerJob_replies_after_fallback:
  "subdirFallback job \<Longrightarrow>
   CheckServerJob_replies fromJson job rs
     = (case rs of [] \<Rightarrow> [] | r # rs' \<Rightarrow> snd (snd (CheckServerJob_finished fromJson job r)))"
  using CheckServerJob_finished_after_fallback [of job fromJson]
  by (cases rs) (simp_all add: CheckServerJob_replies_Cons)

text \<open>
  C5: if the request for \<open>status.php\<close> completes with a content-not-found error, the job
  sends exactly one more request, for \<open>owncloud/status.php\<close>; however that one completes
  (also with 404), the job is then done. A run whose first reply is no such error sends
  the first request only, and no run sends more than two requests, so none retries more
  than once.
\<close>

theorem CheckServerJob_one_fallback_retry:
  "(error r = ContentNotFoundError \<longrightarrow>
      CheckServerJob_run fromJson accountUrl (r # rs)
        = [SendRequest ''status.php'']
          @ (if accountUrl \<noteq> targetUrl r then [RedirectDetected accountUrl (targetUrl r)] else [])
          @ [SendRequest ''owncloud/status.php'']
          @ (case rs of [] \<Rightarrow> []
             | r' # rs' \<Rightarrow> snd (snd (CheckServerJob_finished fromJson
                  \<lparr>subdirFallback = True, path = ''owncloud/status.php'', serverUrl = accountUrl\<rparr> r')))
      \<and> (\<forall>r'. fst (CheckServerJob_finished fromJson
                  \<lparr>subdirFallback = True, path = ''owncloud/status.php'', serverUrl = accountUrl\<rparr> r'))
      \<and> length (filter isSendRequest (CheckServerJob_run fromJson accountUrl (r # rs))) = 2)
   \<and> (error r \<noteq> ContentNotFoundError \<longrightarrow>
      length (filter isSendRequest (CheckServerJob_run fromJson accountUrl (r # rs))) = 1)
   \<and> length (filter isSendRequest (CheckServerJob_run fromJson accountUrl replies)) \<le> 2"
proof -
  let ?job' = "\<lparr>subdirFallback = True, path = ''owncloud/status.php'', serverUrl = accountUrl\<rparr>"
  have fb: "subdirFallback ?job'" by simp
  have none: "filter isSendRequest (snd (snd (CheckServerJob_finished fromJson ?job' r'))) = []" for r'
    using CheckServerJob_finished_after_fallback [OF fb, of fromJson r']
    by (simp add: filter_empty_conv list_all_iff)
  have first: "CheckServerJob_finished fromJson (CheckServerJob_new accountUrl) r
        = (False, ?job',
           (if accountUrl \<noteq> targetUrl r then [RedirectDetected accountUrl (targetUrl r)] else [])
           @ [SendRequest ''owncloud/status.php''])"
    if "error r = ContentNotFoundError" for r
    using that
    by (simp add: CheckServerJob_finished_def CheckServerJob_new_def CheckServerJob_start_def
        owncloudDirC_def statusphpC_def Let_def)
  have run404: "CheckServerJob_run fromJson accountUrl (r # rs)
        = [SendRequest ''status.php'']
          @ (if accountUrl \<noteq> targetUrl r then [RedirectDetected accountUrl (targetUrl r)] else [])
          @ [SendRequest ''owncloud/status.php'']
          @ (case rs of [] \<Rightarrow> []
             | r' # rs' \<Rightarrow> snd (snd (CheckServerJob_finished fromJson ?job' r')))"
    if "error r = ContentNotFoundError" for r rs
    using first [OF that] CheckServerJob_replies_after_fallback [OF fb, of fromJson rs]
    by (simp add: CheckServerJob_run_def CheckServerJob_start_def CheckServerJob_new_def statusphpC_def
        CheckServerJob_replies_Cons)
  have count404: "length (filter isSendRequest (CheckServerJob_run fromJson accountUrl (r # rs))) = 2"
    if "error r = ContentNotFoundError" for r rs
    unfolding run404 [OF that] using none by (cases rs) simp_all
  have count_other: "length (filter isSendRequest (CheckServerJob_run fromJson accountUrl (r # rs))) = 1"
    if "error r \<noteq> ContentNotFoundError" for r rs
    using CheckServerJob_finished_no_retry [OF that, of fromJson "CheckServerJob_new accountUrl"]
    by (simp add: CheckServerJob_run_def CheckServerJob_start_def filter_empty_conv list_all_iff
        CheckServerJob_replies_Cons)
  have bound: "length (filter isSendRequest (CheckServerJob_run fromJson accountUrl replies)) \<le> 2"
  proof (cases replies)
    case Nil
    then show ?thesis by (simp add: CheckServerJob_run_def CheckServerJob_start_def)
  next
    case (Cons r rs)
    then show ?thesis
      using count404 [of r rs] count_other [of r rs] by (cases "error r = ContentNotFoundError") simp_all
  qed
  have done': "fst (CheckServerJob_finished fromJson ?job' r')" for r'
    using CheckServerJob_finished_after_fallback [OF fb, of fromJson r'] by simp
  from run404 count404 count_other bound done' show ?thesis by blast
qed

theorem CheckServerJob_one_fallback_retry_witness:
  "error \<lparr>error = ContentNotFoundError, httpStatus = 404, replyBody = [], targetUrl = ''https://cloud.example''\<rparr>
     = ContentNotFoundError
   \<and> CheckServerJob_run (\<lambda>b. JsonInvalid :: bool JsonDocument) ''https://cloud.example''
        [\<lparr>error = ContentNotFoundError, httpStatus = 404, replyBody = [], targetUrl = ''https://cloud.example''\<rparr>,
         \<lparr>error = ContentNotFoundError, httpStatus = 404, replyBody = [], targetUrl = ''https://cloud.example/owncloud''\<rparr>]
     = [SendRequest ''status.php'', SendRequest ''owncloud/status.php'',
        RedirectDetected ''https://cloud.example'' ''https://cloud.example/owncloud'', InstanceNotFound]"
proof -
  let ?r1 = "\<lparr>error = ContentNotFoundError, httpStatus = 404, replyBody = [], targetUrl = ''https://cloud.example''\<rparr>"
  let ?r2 = "\<lparr>error = ContentNotFoundError, httpStatus = 404, replyBody = [], targetUrl = ''https://cloud.example/owncloud''\<rparr>"
  have h: "error ?r1 = ContentNotFoundError" by simp
  from CheckServerJob_one_fallback_retry
    [of ?r1 "\<lambda>b. JsonInvalid :: bool JsonDocument" "''https://cloud.example''" "[?r2]" "[]"] h
  have "CheckServerJob_run (\<lambda>b. JsonInvalid :: bool JsonDocument) ''https://cloud.example'' (?r1 # [?r2])
        = [SendRequest ''status.php'']
          @ (if ''https://cloud.example'' \<noteq> targetUrl ?r1
             then [RedirectDetected ''https://cloud.example'' (targetUrl ?r1)] else [])
          @ [SendRequest ''owncloud/status.php'']
          @ (case [?r2] of [] \<Rightarrow> []
             | r' # rs' \<Rightarrow> snd (snd (CheckServerJob_finished (\<lambda>b. JsonInvalid :: bool JsonDocument)
                  \<lparr>subdirFallback = True, path = ''owncloud/status.php'', serverUrl = ''https://cloud.example''\<rparr> r')))"
    by blast
  then show ?thesis
    by (simp add: CheckServerJob_finished_def Let_def)
qed

section \<open>Properties of the round trip from \<open>ProppatchJob\<close> to \<open>PropfindJob\<close>\<close>

subsection \<open>The loop of \<open>PropfindJob::finished\<close> on the expected tokens\<close>

declare PropfindJob_loop.simps [simp del]

lemma PropfindJob_loop_Cons:
  "c \<noteq> Invalid \<Longrightarrow> c \<noteq> EndDocument \<Longrightarrow>
   PropfindJob_loop (c, t # ts) items st =
     (case PropfindJob_iteration (t, ts) items st of
        None \<Rightarrow> None
      | Some (r', items', st') \<Rightarrow> PropfindJob_loop r' items' st')"
  by (subst PropfindJob_loop.simps) (simp add: readNext_def atEnd_def)

lemma PropfindJob_loop_end:
  "PropfindJob_loop (EndDocument, ts) items st = Some ((EndDocument, ts), items)"
  by (subst PropfindJob_loop.simps) (simp add: atEnd_def)

lemma PropfindJob_loop_properties:
  "c \<noteq> Invalid \<Longrightarrow> c \<noteq> EndDocument \<Longrightarrow>
   PropfindJob_loop (c, property_tokens kvs) items [''prop'', ''set'', ''propertyupdate'']
     = Some ((EndDocument, []), fold insert_pair kvs items)"
proof (induction kvs arbitrary: c items)
  case Nil
  then show ?case
    by (simp add: PropfindJob_loop_Cons PropfindJob_iteration_def PropfindJob_loop_end)
next
  case (Cons kv kvs)
  have "PropfindJob_loop (c, property_tokens (kv # kvs)) items [''prop'', ''set'', ''propertyupdate'']
        = PropfindJob_loop (EndElement (keyNs (fst kv)) (keyName (fst kv)), property_tokens kvs)
            (insert_pair kv items) [''prop'', ''set'', ''propertyupdate'']"
    using Cons.prems
    by (simp add: PropfindJob_loop_Cons PropfindJob_iteration_def
        readElementText_SkipChildElements_def insert_pair_def)
  also have "\<dots> = Some ((EndDocument, []), fold insert_pair kvs (insert_pair kv items))"
    by (rule Cons.IH) simp_all
  finally show ?case by simp
qed

lemma PropfindJob_finished_ProppatchJob_tokens:
  "PropfindJob_finished 207 (ProppatchJob_tokens kvs) = Some [Result (fold insert_pair kvs Map.empty)]"
proof -
  have "PropfindJob_loop (NoToken, ProppatchJob_tokens kvs) Map.empty []
        = PropfindJob_loop (StartElement ''DAV:'' ''prop'', property_tokens kvs) Map.empty
            [''prop'', ''set'', ''propertyupdate'']"
    by (simp add: ProppatchJob_tokens_def PropfindJob_loop_Cons PropfindJob_iteration_def)
  also have "\<dots> = Some ((EndDocument, []), fold insert_pair kvs Map.empty)"
    by (rule PropfindJob_loop_properties) simp_all
  finally show ?thesis
    by (simp add: PropfindJob_finished_def hasError_def)
qed

subsection \<open>The tokens of the body\<close>

lemma takeWhile_stop:
  "\<forall>x\<in>set xs. P x \<Longrightarrow> \<not> P y \<Longrightarrow> takeWhile P (xs @ y # ys) = xs"
  by (induction xs) simp_all

lemma dropWhile_stop:
  "\<forall>x\<in>set xs. P x \<Longrightarrow> \<not> P y \<Longrightarrow> dropWhile P (xs @ y # ys) = y # ys"
  by (induction xs) simp_all

lemma isNameChar_facts:
  "isNameChar c \<Longrightarrow> c \<noteq> CHR ''>'' \<and> c \<noteq> CHR ''/'' \<and> c \<noteq> CHR '':'' \<and> c \<noteq> CHR ''<'' \<and> \<not> isSpace c"
  by (auto simp: isNameChar_def isLetter_def isDigit_def isSpace_def)

lemma validNCName_facts:
  assumes "validNCName n"
  shows "n \<noteq> []" "hd n \<noteq> CHR ''/''" "\<forall>x\<in>set n. x \<noteq> CHR ''>''" "\<forall>x\<in>set n. isQNameChar x"
    "CHR '':'' \<notin> set n" "\<not> isSpace (last n)" "validQName n" "localName n = n"
proof -
  from assms have ne: "n \<noteq> []" and all: "\<forall>x\<in>set n. isNameChar x"
    by (simp_all add: validNCName_def list_all_iff)
  show "n \<noteq> []" by (rule ne)
  from ne all have "isNameChar (hd n)" "isNameChar (last n)" by simp_all
  then show "hd n \<noteq> CHR ''/''" "\<not> isSpace (last n)" using isNameChar_facts by blast+
  show "\<forall>x\<in>set n. x \<noteq> CHR ''>''" using all isNameChar_facts by blast
  show "\<forall>x\<in>set n. isQNameChar x" using all by (simp add: isQNameChar_def)
  show nc: "CHR '':'' \<notin> set n" using all isNameChar_facts by blast
  then show "localName n = n" by (simp add: localName_def)
  with nc assms show "validQName n" by (simp add: validQName_def)
qed

lemma xml_content_text:
  assumes "open \<noteq> []" "list_all isTextChar (c # w)" "\<not> sublist '']]>'' (c # w)"
  shows "xml_content open env seen ((c # w) @ CHR ''<'' # rest)
         = map_option ((#) (Characters (c # w))) (xml_content open env seen (CHR ''<'' # rest))"
proof -
  from assms(2) have c: "c \<noteq> CHR ''<''" and w: "\<forall>x\<in>set w. x \<noteq> CHR ''<''"
    by (auto simp: isTextChar_def list_all_iff)
  have t: "takeWhile (\<lambda>x. x \<noteq> CHR ''<'') (w @ CHR ''<'' # rest) = w"
    using w by (intro takeWhile_stop) simp_all
  have d: "dropWhile (\<lambda>x. x \<noteq> CHR ''<'') (w @ CHR ''<'' # rest) = CHR ''<'' # rest"
    using w by (intro dropWhile_stop) simp_all
  show ?thesis
    using assms c by (simp add: xml_content.simps(2) t d)
qed

lemma xml_content_space_outside:
  assumes "list_all isSpace (c # w)"
  shows "xml_content [] env seen ((c # w) @ CHR ''<'' # rest)
         = xml_content [] env seen (CHR ''<'' # rest)"
proof -
  from assms have c: "c \<noteq> CHR ''<''" and w: "\<forall>x\<in>set w. x \<noteq> CHR ''<''"
    by (auto simp: isSpace_def list_all_iff)
  have t: "takeWhile (\<lambda>x. x \<noteq> CHR ''<'') (w @ CHR ''<'' # rest) = w"
    using w by (intro takeWhile_stop) simp_all
  have d: "dropWhile (\<lambda>x. x \<noteq> CHR ''<'') (w @ CHR ''<'' # rest) = CHR ''<'' # rest"
    using w by (intro dropWhile_stop) simp_all
  show ?thesis
    using assms c by (simp add: xml_content.simps(2) t d)
qed

lemma xml_content_start:
  assumes q: "validQName q" "\<forall>x\<in>set q. isQNameChar x" "q \<noteq> []" "hd q \<noteq> CHR ''/''"
    and a: "\<forall>x\<in>set (q @ a). x \<noteq> CHR ''>''" "a = [] \<or> \<not> isQNameChar (hd a)" "a = [] \<or> last a \<noteq> CHR ''/''"
    and attrs: "parse_attributes a = Some attrs" "legalAttributes attrs"
    and ns: "resolve (declarations attrs @ env) q = Some ns"
    and root: "\<not> (open = [] \<and> seen)"
  shows "xml_content open env seen (CHR ''<'' # q @ a @ CHR ''>'' # rest)
         = map_option ((#) (StartElement ns (localName q)))
             (xml_content ((q, env) # open) (declarations attrs @ env) True rest)"
proof -
  have t: "takeWhile (\<lambda>x. x \<noteq> CHR ''>'') (q @ a @ CHR ''>'' # rest) = q @ a"
    using takeWhile_stop [of "q @ a" "\<lambda>x. x \<noteq> CHR ''>''" "CHR ''>''" rest] a(1) by simp
  have d: "dropWhile (\<lambda>x. x \<noteq> CHR ''>'') (q @ a @ CHR ''>'' # rest) = CHR ''>'' # rest"
    using dropWhile_stop [of "q @ a" "\<lambda>x. x \<noteq> CHR ''>''" "CHR ''>''" rest] a(1) by simp
  have tq: "takeWhile isQNameChar (q @ a) = q"
    using q(2) a(2) by (cases a) (simp_all add: takeWhile_stop)
  have dq: "dropWhile isQNameChar (q @ a) = a"
    using q(2) a(2) by (cases a) (simp_all add: dropWhile_stop)
  have hd: "hd (q @ a) \<noteq> CHR ''/''" using q(3,4) by simp
  have ne: "(a \<noteq> [] \<and> last a = CHR ''/'') = False" using a(3) by blast
  have root': "(open = [] \<and> seen) = False" using root by blast
  show ?thesis
    using q(1,3) hd
    by (simp add: xml_content.simps(2) t d tq dq Let_def ne root' attrs ns)
qed

lemma xml_content_end:
  assumes "\<forall>x\<in>set q. x \<noteq> CHR ''>''" "q \<noteq> []" "\<not> isSpace (last q)"
    and "resolve env q = Some ns"
  shows "xml_content ((q, env') # open) env seen (CHR ''<'' # CHR ''/'' # q @ CHR ''>'' # rest)
         = map_option ((#) (EndElement ns (localName q))) (xml_content open env' seen rest)"
proof -
  have t: "takeWhile (\<lambda>x. x \<noteq> CHR ''>'') (q @ CHR ''>'' # rest) = q"
    using assms(1) by (intro takeWhile_stop) simp_all
  have d: "dropWhile (\<lambda>x. x \<noteq> CHR ''>'') (q @ CHR ''>'' # rest) = CHR ''>'' # rest"
    using assms(1) by (intro dropWhile_stop) simp_all
  have "dropWhile isSpace (rev q) = rev q"
    using assms(2,3) by (cases q rule: rev_cases) simp_all
  then have trim: "rev (dropWhile isSpace (rev q)) = q" by simp
  show ?thesis
    using assms(4) by (simp add: xml_content.simps(2) t d trim)
qed

lemma parse_attributes_empty: "parse_attributes [] = Some []"
  by (simp add: parse_attributes.simps)

lemma parse_attributes_xmlns:
  assumes "list_all isAttributeChar u"
  shows \<open>parse_attributes ('' xmlns="'' @ u @ ''" '') = Some [(''xmlns'', u)]\<close>
proof -
  from assms have u: \<open>\<forall>x\<in>set u. x \<noteq> CHR ''"''\<close>
    by (simp add: isAttributeChar_def list_all_iff)
  have t: \<open>takeWhile (\<lambda>c. c \<noteq> CHR ''"'') (u @ ''" '') = u\<close>
    using takeWhile_stop [of u \<open>\<lambda>c. c \<noteq> CHR ''"''\<close> \<open>CHR ''"''\<close> "'' ''"] u by simp
  have d: \<open>dropWhile (\<lambda>c. c \<noteq> CHR ''"'') (u @ ''" '') = ''" ''\<close>
    using dropWhile_stop [of u \<open>\<lambda>c. c \<noteq> CHR ''"''\<close> \<open>CHR ''"''\<close> "'' ''"] u by simp
  have sp: "parse_attributes '' '' = Some []"
    by (subst parse_attributes.simps) (simp add: isSpace_def)
  have v: "validQName ''xmlns''"
    by (simp add: validQName_def validNCName_def localName_def isNameStartChar_def isNameChar_def
        isLetter_def)
  show ?thesis
    using assms v
    by (subst parse_attributes.simps) (simp add: isSpace_def t d sp)
qed

lemma xml_content_property:
  assumes "plain_key (fst kv)" "plain_value (snd kv)"
  shows "xml_content open_prop dav_env True (CHR 0x0A # ProppatchJob_property kv @ rest)
         = map_option
             (\<lambda>ts. Characters [CHR 0x0A, CHR '' '', CHR '' '', CHR '' '', CHR '' '']
                    # StartElement (keyNs (fst kv)) (keyName (fst kv))
                    # (if snd kv = [] then [] else [Characters (snd kv)])
                    @ EndElement (keyNs (fst kv)) (keyName (fst kv)) # ts)
             (xml_content open_prop dav_env True (CHR 0x0A # rest))"
proof -
  define n where "n = keyName (fst kv)"
  define u where "u = keyNs (fst kv)"
  define v where "v = snd kv"
  define a where \<open>a = (if u \<noteq> [] then '' xmlns="'' @ u @ ''" '' else [])\<close>
  define attrs where "attrs = (if u \<noteq> [] then [(''xmlns'', u)] else [])"
  define env where "env = declarations attrs @ dav_env"
  from assms have n: "validNCName n" and u: "list_all isAttributeChar u"
    and ur: "u \<notin> reservedNamespaces"
    and v: "list_all isTextChar v" "\<not> sublist '']]>'' v"
    by (simp_all add: plain_key_def plain_value_def n_def u_def v_def)
  note nf = validNCName_facts [OF n]
  have u_gt: "\<forall>x\<in>set u. x \<noteq> CHR ''>''"
    using u by (simp add: isAttributeChar_def list_all_iff)
  have pa: "parse_attributes a = Some attrs"
    using parse_attributes_xmlns [OF u] by (simp add: a_def attrs_def parse_attributes_empty)
  have la: "legalAttributes attrs"
    using ur by (simp add: attrs_def legalAttributes_def)
  have a1: "\<forall>x\<in>set (n @ a). x \<noteq> CHR ''>''"
    using nf(3) u_gt by (auto simp: a_def)
  have a2: "a = [] \<or> \<not> isQNameChar (hd a)"
    by (simp add: a_def isQNameChar_def isNameChar_def isLetter_def isDigit_def)
  have a3: "a = [] \<or> last a \<noteq> CHR ''/''"
    by (simp add: a_def)
  have res: "resolve env n = Some u"
    using nf(5) by (simp add: resolve_def env_def attrs_def declarations_def dav_env_def
        PropfindJob_extraNamespaceDeclarations_def)
  have shape: "ProppatchJob_property kv
        = ''    '' @ CHR ''<'' # n @ a @ CHR ''>'' # v @ CHR ''<'' # CHR ''/'' # n @ CHR ''>'' # [CHR 0x0A]"
    by (simp add: ProppatchJob_property_def n_def u_def v_def a_def)
  have step1: "xml_content open_prop dav_env True
                 ([CHR 0x0A, CHR '' '', CHR '' '', CHR '' '', CHR '' ''] @ CHR ''<'' # X)
        = map_option ((#) (Characters [CHR 0x0A, CHR '' '', CHR '' '', CHR '' '', CHR '' '']))
            (xml_content open_prop dav_env True (CHR ''<'' # X))" for X
    by (rule xml_content_text)
       (simp_all add: open_prop_def isTextChar_def sublist_Cons_right)
  have step2: "xml_content open_prop dav_env True (CHR ''<'' # n @ a @ CHR ''>'' # X)
        = map_option ((#) (StartElement u (localName n)))
            (xml_content ((n, dav_env) # open_prop) env True X)" for X
    unfolding env_def
    by (rule xml_content_start [OF nf(7) nf(4) nf(1) nf(2) a1 a2 a3 pa la])
       (simp_all add: res [unfolded env_def] open_prop_def)
  have step3: "xml_content ((n, dav_env) # open_prop) env True (v @ CHR ''<'' # X)
        = map_option ((@) (if v = [] then [] else [Characters v]))
            (xml_content ((n, dav_env) # open_prop) env True (CHR ''<'' # X))" for X
  proof (cases v)
    case Nil
    then show ?thesis
      by (cases "xml_content ((n, dav_env) # open_prop) env True (CHR ''<'' # X)") simp_all
  next
    case (Cons c w)
    have tc: "list_all isTextChar (c # w)"
      using v(1) Cons by simp
    have nb: "\<not> sublist '']]>'' (c # w)"
      using v(2) Cons by simp
    show ?thesis
      unfolding Cons using xml_content_text [OF _ tc nb, of "(n, dav_env) # open_prop" env True X]
      by (cases "xml_content ((n, dav_env) # open_prop) env True (CHR ''<'' # X)") simp_all
  qed
  have step4: "xml_content ((n, dav_env) # open_prop) env True (CHR ''<'' # CHR ''/'' # n @ CHR ''>'' # X)
        = map_option ((#) (EndElement u (localName n))) (xml_content open_prop dav_env True X)" for X
    by (rule xml_content_end [OF nf(3) nf(1) nf(6) res])
  show ?thesis
    unfolding shape n_def [symmetric] u_def [symmetric] v_def [symmetric]
    using step1 [of "n @ a @ CHR ''>'' # v @ CHR ''<'' # CHR ''/'' # n @ CHR ''>'' # CHR 0x0A # rest"]
      step2 [of "v @ CHR ''<'' # CHR ''/'' # n @ CHR ''>'' # CHR 0x0A # rest"]
      step3 [of "CHR ''/'' # n @ CHR ''>'' # CHR 0x0A # rest"]
      step4 [of "CHR 0x0A # rest"]
    by (simp add: option.map_comp comp_def nf(8))
qed

lemma validQName_literals:
  "validQName ''d:propertyupdate''" "validQName ''d:set''" "validQName ''d:prop''" "validQName ''xmlns:d''"
  by (simp_all add: validQName_def validNCName_def localName_def qnamePrefix_def isNameStartChar_def
      isNameChar_def isLetter_def)

lemma xml_content_footer:
  "xml_content open_prop dav_env True (CHR 0x0A # ProppatchJob_footer) = Some (property_tokens [])"
  by (simp add: ProppatchJob_footer_def open_prop_def dav_env_def xml_content.simps(2) isTextChar_def isSpace_def
      sublist_Cons_right resolve_def qnamePrefix_def localName_def
      PropfindJob_extraNamespaceDeclarations_def)

lemma xml_content_properties:
  assumes "list_all (\<lambda>kv. plain_key (fst kv) \<and> plain_value (snd kv)) kvs"
  shows "xml_content open_prop dav_env True
           (CHR 0x0A # concat (map ProppatchJob_property kvs) @ ProppatchJob_footer)
         = Some (property_tokens kvs)"
  using assms
proof (induction kvs)
  case Nil
  then show ?case by (simp add: xml_content_footer)
next
  case (Cons kv kvs)
  then have kv: "plain_key (fst kv)" "plain_value (snd kv)" by simp_all
  from Cons have IH: "xml_content open_prop dav_env True
           (CHR 0x0A # concat (map ProppatchJob_property kvs) @ ProppatchJob_footer) = Some (property_tokens kvs)"
    by simp
  show ?case
    using xml_content_property [OF kv, of "concat (map ProppatchJob_property kvs) @ ProppatchJob_footer"]
    by (simp add: IH)
qed

lemma legalAttributes_literals:
  "legalAttributes []" "legalAttributes [(''xmlns:d'', ''DAV:'')]"
  by (simp_all add: legalAttributes_def reservedNamespaces_def)

lemma after_declaration_version:
  \<open>after_declaration (''<?xml version="1.0" ?>'' @ Y) = Some Y\<close>
proof -
  have pa: \<open>parse_attributes '' version="1.0" '' = Some [(''version'', ''1.0'')]\<close>
    by (simp add: parse_attributes.simps isSpace_def validQName_def validNCName_def localName_def
        isNameStartChar_def isNameChar_def isLetter_def isAttributeChar_def isTextChar_def)
  show ?thesis
    by (simp add: after_declaration_def pa)
qed

lemma xml_tokens_header:
  \<open>xml_tokens PropfindJob_extraNamespaceDeclarations
      (''<?xml version="1.0" ?>'' @ [CHR 0x0A]
       @ ''<d:propertyupdate xmlns:d="DAV:">'' @ [CHR 0x0A]
       @ ''  <d:set><d:prop>'' @ X)
   = map_option
       (\<lambda>ts. StartDocument # StartElement ''DAV:'' ''propertyupdate''
              # Characters [CHR 0x0A, CHR '' '', CHR '' '']
              # StartElement ''DAV:'' ''set'' # StartElement ''DAV:'' ''prop'' # ts)
       (xml_content open_prop dav_env True X)\<close>
proof -
  let ?E = PropfindJob_extraNamespaceDeclarations
  let ?root = "[(''d:propertyupdate'', ?E)]"
  have pa: \<open>parse_attributes '' xmlns:d="DAV:"'' = Some [(''xmlns:d'', ''DAV:'')]\<close>
    by (simp add: parse_attributes.simps isSpace_def validQName_literals isAttributeChar_def
        isTextChar_def)
  have decl: "declarations [(''xmlns:d'', ''DAV:'')] @ ?E = dav_env"
    by (simp add: declarations_def dav_env_def)
  have d0: "declarations [] @ dav_env = dav_env" by (simp add: declarations_def)
  have qc: "\<forall>x\<in>set ''d:propertyupdate''. isQNameChar x" "\<forall>x\<in>set ''d:set''. isQNameChar x"
    "\<forall>x\<in>set ''d:prop''. isQNameChar x"
    by (simp_all add: isQNameChar_def isNameChar_def isLetter_def)
  have rs: "resolve dav_env ''d:propertyupdate'' = Some ''DAV:''"
    "resolve dav_env ''d:set'' = Some ''DAV:''" "resolve dav_env ''d:prop'' = Some ''DAV:''"
    by (simp_all add: resolve_def dav_env_def qnamePrefix_def)
  have s0: \<open>xml_tokens ?E (''<?xml version="1.0" ?>'' @ [CHR 0x0A] @ Y)
            = map_option ((#) StartDocument) (xml_content [] ?E False ([CHR 0x0A] @ Y))\<close> for Y
    using after_declaration_version [of "[CHR 0x0A] @ Y"] by (simp add: xml_tokens_def)
  have s1: "xml_content [] ?E False ([CHR 0x0A] @ CHR ''<'' # Y) = xml_content [] ?E False (CHR ''<'' # Y)" for Y
    by (rule xml_content_space_outside) (simp add: isSpace_def)
  have s2: \<open>xml_content [] ?E False (CHR ''<'' # ''d:propertyupdate'' @ '' xmlns:d="DAV:"'' @ CHR ''>'' # Y)
            = map_option ((#) (StartElement ''DAV:'' (localName ''d:propertyupdate'')))
                (xml_content ?root (declarations [(''xmlns:d'', ''DAV:'')] @ ?E) True Y)\<close> for Y
    by (rule xml_content_start [OF validQName_literals(1) qc(1) _ _ _ _ _ pa legalAttributes_literals(2)])
       (simp_all add: isQNameChar_def isNameChar_def isLetter_def isDigit_def decl rs)
  have s3: "xml_content ?root dav_env True ([CHR 0x0A, CHR '' '', CHR '' ''] @ CHR ''<'' # Y)
            = map_option ((#) (Characters [CHR 0x0A, CHR '' '', CHR '' '']))
                (xml_content ?root dav_env True (CHR ''<'' # Y))" for Y
    by (rule xml_content_text) (simp_all add: isTextChar_def sublist_Cons_right)
  have s4: "xml_content ?root dav_env True (CHR ''<'' # ''d:set'' @ [] @ CHR ''>'' # Y)
            = map_option ((#) (StartElement ''DAV:'' (localName ''d:set'')))
                (xml_content ((''d:set'', dav_env) # ?root) (declarations [] @ dav_env) True Y)" for Y
    by (rule xml_content_start [OF validQName_literals(2) qc(2) _ _ _ _ _ parse_attributes_empty
          legalAttributes_literals(1)])
       (simp_all add: d0 rs)
  have s5: "xml_content ((''d:set'', dav_env) # ?root) dav_env True
              (CHR ''<'' # ''d:prop'' @ [] @ CHR ''>'' # Y)
            = map_option ((#) (StartElement ''DAV:'' (localName ''d:prop'')))
                (xml_content ((''d:prop'', dav_env) # (''d:set'', dav_env) # ?root)
                   (declarations [] @ dav_env) True Y)" for Y
    by (rule xml_content_start [OF validQName_literals(3) qc(3) _ _ _ _ _ parse_attributes_empty
          legalAttributes_literals(1)])
       (simp_all add: d0 rs)
  have ln: "localName ''d:propertyupdate'' = ''propertyupdate''" "localName ''d:set'' = ''set''"
    "localName ''d:prop'' = ''prop''"
    by (simp_all add: localName_def)
  have op: "(''d:prop'', dav_env) # (''d:set'', dav_env) # ?root = open_prop"
    by (simp add: open_prop_def)
  show ?thesis
    using s0 [of \<open>''<d:propertyupdate xmlns:d="DAV:">'' @ [CHR 0x0A] @ ''  <d:set><d:prop>'' @ X\<close>]
      s1 [of \<open>''d:propertyupdate xmlns:d="DAV:">'' @ [CHR 0x0A] @ ''  <d:set><d:prop>'' @ X\<close>]
      s2 [of \<open>[CHR 0x0A] @ ''  <d:set><d:prop>'' @ X\<close>]
      s3 [of \<open>''d:set><d:prop>'' @ X\<close>]
      s4 [of \<open>''<d:prop>'' @ X\<close>]
      s5 [of X]
    by (simp add: decl d0 ln op option.map_comp comp_def)
qed

lemma xml_tokens_ProppatchJob_body:
  assumes "list_all (\<lambda>kv. plain_key (fst kv) \<and> plain_value (snd kv)) kvs"
  shows "xml_tokens PropfindJob_extraNamespaceDeclarations (ProppatchJob_body kvs)
         = Some (ProppatchJob_tokens kvs)"
proof -
  have "ProppatchJob_body kvs
        = ''<?xml version=\"1.0\" ?>'' @ [CHR 0x0A]
          @ ''<d:propertyupdate xmlns:d=\"DAV:\">'' @ [CHR 0x0A]
          @ ''  <d:set><d:prop>'' @ (CHR 0x0A # concat (map ProppatchJob_property kvs) @ ProppatchJob_footer)"
    by (simp add: ProppatchJob_body_def ProppatchJob_footer_def)
  then show ?thesis
    using xml_tokens_header [of "CHR 0x0A # concat (map ProppatchJob_property kvs) @ ProppatchJob_footer"]
      xml_content_properties [OF assms]
    by (simp add: ProppatchJob_tokens_def)
qed

subsection \<open>The recovered map\<close>

lemma fold_insert_pair_map_of_rev:
  "fold insert_pair kvs m = m ++ map_of (rev (map local_entry kvs))"
proof (induction kvs arbitrary: m)
  case Nil
  then show ?case by simp
next
  case (Cons kv kvs)
  have "fold insert_pair (kv # kvs) m = fold insert_pair kvs (insert_pair kv m)"
    by simp
  also have "\<dots> = insert_pair kv m ++ map_of (rev (map local_entry kvs))"
    by (rule Cons.IH)
  also have "\<dots> = m ++ map_of (rev (map local_entry (kv # kvs)))"
    by (auto simp: insert_pair_def map_add_def fun_eq_iff local_entry_def split: option.splits)
  finally show ?case .
qed

lemma map_of_rev_distinct:
  "distinct (map fst xs) \<Longrightarrow> map_of (rev xs) = map_of xs"
proof (induction xs)
  case Nil
  then show ?case by simp
next
  case (Cons x xs)
  then have "map_of xs (fst x) = None" by (simp add: map_of_eq_None_iff)
  with Cons show ?case
    by (cases x) (auto simp: map_add_def fun_eq_iff split: option.splits)
qed

lemma map_local_entry_no_colon:
  "list_all (\<lambda>kv. CHR '':'' \<notin> set (fst kv)) kvs \<Longrightarrow> map local_entry kvs = kvs"
  by (induction kvs) (simp_all add: local_entry_def keyName_def)

text \<open>
  C8, as stated, fails: a key with a namespace is not recovered. \<open>ProppatchJob::start\<close>
  splits the key \<open>http://owncloud.org/ns:favorite\<close> at its last colon and writes the
  element \<open>favorite\<close> with \<open>xmlns="http://owncloud.org/ns"\<close>; \<open>PropfindJob::finished\<close>
  inserts the value under \<open>reader.name()\<close>, which is \<open>favorite\<close>. The recovered map holds
  the key \<open>favorite\<close>, the original map the key \<open>http://owncloud.org/ns:favorite\<close>.
\<close>

theorem ProppatchJob_namespaced_key_counterexample:
  "xml_tokens PropfindJob_extraNamespaceDeclarations
      (ProppatchJob_body [(''http://owncloud.org/ns:favorite'', ''1'')])
     = Some [StartDocument, StartElement ''DAV:'' ''propertyupdate'',
             Characters [CHR 0x0A, CHR '' '', CHR '' ''],
             StartElement ''DAV:'' ''set'', StartElement ''DAV:'' ''prop'',
             Characters [CHR 0x0A, CHR '' '', CHR '' '', CHR '' '', CHR '' ''],
             StartElement ''http://owncloud.org/ns'' ''favorite'', Characters ''1'',
             EndElement ''http://owncloud.org/ns'' ''favorite'',
             Characters [CHR 0x0A, CHR '' '', CHR '' ''],
             EndElement ''DAV:'' ''prop'', EndElement ''DAV:'' ''set'',
             Characters [CHR 0x0A], EndElement ''DAV:'' ''propertyupdate'', EndDocument]
   \<and> ProppatchJob_PropfindJob_round_trip [(''http://owncloud.org/ns:favorite'', ''1'')]
       = Some [Result [''favorite'' \<mapsto> ''1'']]
   \<and> [''favorite'' \<mapsto> ''1''] \<noteq> map_of [(''http://owncloud.org/ns:favorite'', ''1'')]"
proof -
  have tk: "xml_tokens PropfindJob_extraNamespaceDeclarations
      (ProppatchJob_body [(''http://owncloud.org/ns:favorite'', ''1'')])
     = Some [StartDocument, StartElement ''DAV:'' ''propertyupdate'',
             Characters [CHR 0x0A, CHR '' '', CHR '' ''],
             StartElement ''DAV:'' ''set'', StartElement ''DAV:'' ''prop'',
             Characters [CHR 0x0A, CHR '' '', CHR '' '', CHR '' '', CHR '' ''],
             StartElement ''http://owncloud.org/ns'' ''favorite'', Characters ''1'',
             EndElement ''http://owncloud.org/ns'' ''favorite'',
             Characters [CHR 0x0A, CHR '' '', CHR '' ''],
             EndElement ''DAV:'' ''prop'', EndElement ''DAV:'' ''set'',
             Characters [CHR 0x0A], EndElement ''DAV:'' ''propertyupdate'', EndDocument]"
    by code_simp
  have rt: "ProppatchJob_PropfindJob_round_trip [(''http://owncloud.org/ns:favorite'', ''1'')]
       = Some [Result [''favorite'' \<mapsto> ''1'']]"
    unfolding ProppatchJob_PropfindJob_round_trip_def tk
    by (simp add: PropfindJob_finished_def PropfindJob_loop_Cons PropfindJob_loop_end
        PropfindJob_iteration_def readElementText_SkipChildElements_def hasError_def)
  have ne: "[''favorite'' \<mapsto> ''1''] \<noteq> map_of [(''http://owncloud.org/ns:favorite'', ''1'')]"
  proof
    assume e: "[''favorite'' \<mapsto> ''1''] = map_of [(''http://owncloud.org/ns:favorite'', ''1'')]"
    from fun_cong [OF e, of "''favorite''"] show False by simp
  qed
  from tk rt ne show ?thesis by blast
qed

text \<open>
  C8, amended: the round trip recovers the values under the local names of the keys. For
  every property map whose keys and values are ASCII text that the body builder can copy
  as it is (\<open>plain_key\<close>, \<open>plain_value\<close>), the body built by \<open>ProppatchJob::start\<close> is read
  by \<open>PropfindJob::finished\<close> without error, and the one result it emits holds, for each
  entry, the value under the part of the key after its last colon; where several keys
  have that part in common, the value of the last of them in the order of the map. So if
  these parts are distinct every value is recovered under the local name of its key, and
  if moreover no key holds a colon the result is exactly the original map. (The entries
  of a map have distinct keys; \<open>properties\<close> lists them in the order of iteration.)
\<close>

theorem ProppatchJob_PropfindJob_round_trip_local_names:
  assumes "list_all (\<lambda>kv. plain_key (fst kv) \<and> plain_value (snd kv)) properties"
  shows "ProppatchJob_PropfindJob_round_trip properties
           = Some [Result (map_of (rev (map (\<lambda>kv. (keyName (fst kv), snd kv)) properties)))]
         \<and> (distinct (map (\<lambda>kv. keyName (fst kv)) properties)
            \<longrightarrow> ProppatchJob_PropfindJob_round_trip properties
                  = Some [Result (map_of (map (\<lambda>kv. (keyName (fst kv), snd kv)) properties))])
         \<and> (distinct (map fst properties) \<and> list_all (\<lambda>kv. CHR '':'' \<notin> set (fst kv)) properties
            \<longrightarrow> ProppatchJob_PropfindJob_round_trip properties = Some [Result (map_of properties)])"
proof -
  have le: "(\<lambda>kv. (keyName (fst kv), snd kv)) = local_entry"
    by (simp add: local_entry_def fun_eq_iff)
  have rt: "ProppatchJob_PropfindJob_round_trip properties
           = Some [Result (map_of (rev (map local_entry properties)))]"
    by (simp add: ProppatchJob_PropfindJob_round_trip_def xml_tokens_ProppatchJob_body [OF assms]
        PropfindJob_finished_ProppatchJob_tokens fold_insert_pair_map_of_rev)
  have d1: "map_of (rev (map local_entry properties)) = map_of (map local_entry properties)"
    if "distinct (map (\<lambda>kv. keyName (fst kv)) properties)"
    using that by (intro map_of_rev_distinct) (simp add: local_entry_def comp_def)
  have d2: "map_of (rev (map local_entry properties)) = map_of properties"
    if "distinct (map fst properties)" "list_all (\<lambda>kv. CHR '':'' \<notin> set (fst kv)) properties"
    using that map_of_rev_distinct [of properties] by (simp add: map_local_entry_no_colon)
  from rt d1 d2 show ?thesis unfolding le by simp
qed

theorem ProppatchJob_PropfindJob_round_trip_local_names_witness:
  "ProppatchJob_PropfindJob_round_trip
      [(''fingerprint'', ''a1 b2''), (''http://owncloud.org/ns:favorite'', ''1'')]
     = Some [Result [''fingerprint'' \<mapsto> ''a1 b2'', ''favorite'' \<mapsto> ''1'']]
   \<and> ProppatchJob_PropfindJob_round_trip [(''http://a/ns:x'', ''1''), (''http://b/ns:x'', ''2'')]
     = Some [Result [''x'' \<mapsto> ''2'']]
   \<and> ProppatchJob_PropfindJob_round_trip [(''etag'', ''a>b''), (''fingerprint'', ''a1 b2'')]
     = Some [Result (map_of [(''etag'', ''a>b''), (''fingerprint'', ''a1 b2'')])]"
proof -
  have kn: "keyName ''fingerprint'' = ''fingerprint''" "keyNs ''fingerprint'' = []"
    "keyName ''etag'' = ''etag''" "keyNs ''etag'' = []"
    "keyName ''http://owncloud.org/ns:favorite'' = ''favorite''"
    "keyNs ''http://owncloud.org/ns:favorite'' = ''http://owncloud.org/ns''"
    "keyName ''http://a/ns:x'' = ''x''" "keyNs ''http://a/ns:x'' = ''http://a/ns''"
    "keyName ''http://b/ns:x'' = ''x''" "keyNs ''http://b/ns:x'' = ''http://b/ns''"
    by (simp_all add: keyName_def keyNs_def lastIndexOf_def)
  have pk: "plain_key ''fingerprint''" "plain_key ''etag''" "plain_key ''http://owncloud.org/ns:favorite''"
    "plain_key ''http://a/ns:x''" "plain_key ''http://b/ns:x''"
    by (simp_all add: plain_key_def kn validNCName_def isNameStartChar_def isNameChar_def isLetter_def
        isDigit_def isTextChar_def isAttributeChar_def reservedNamespaces_def)
  have pv: "plain_value ''a1 b2''" "plain_value ''1''" "plain_value ''2''" "plain_value ''a>b''"
    by (simp_all add: plain_value_def isTextChar_def sublist_Cons_right)
  from ProppatchJob_PropfindJob_round_trip_local_names
    [of "[(''fingerprint'', ''a1 b2''), (''http://owncloud.org/ns:favorite'', ''1'')]"]
  have w1: "ProppatchJob_PropfindJob_round_trip
      [(''fingerprint'', ''a1 b2''), (''http://owncloud.org/ns:favorite'', ''1'')]
     = Some [Result [''fingerprint'' \<mapsto> ''a1 b2'', ''favorite'' \<mapsto> ''1'']]"
    by (simp add: pk pv kn)
  from ProppatchJob_PropfindJob_round_trip_local_names
    [of "[(''http://a/ns:x'', ''1''), (''http://b/ns:x'', ''2'')]"]
  have w2: "ProppatchJob_PropfindJob_round_trip [(''http://a/ns:x'', ''1''), (''http://b/ns:x'', ''2'')]
     = Some [Result [''x'' \<mapsto> ''2'']]"
    by (simp add: pk pv kn)
  have h3: "list_all (\<lambda>kv. plain_key (fst kv) \<and> plain_value (snd kv))
              [(''etag'', ''a>b''), (''fingerprint'', ''a1 b2'')]"
    by (simp add: pk pv)
  have d3: "distinct (map fst [(''etag'', ''a>b''), (''fingerprint'', ''a1 b2'')])
            \<and> list_all (\<lambda>kv. CHR '':'' \<notin> set (fst kv)) [(''etag'', ''a>b''), (''fingerprint'', ''a1 b2'')]"
    by simp
  from ProppatchJob_PropfindJob_round_trip_local_names [OF h3] d3
  have w3: "ProppatchJob_PropfindJob_round_trip [(''etag'', ''a>b''), (''fingerprint'', ''a1 b2'')]
     = Some [Result (map_of [(''etag'', ''a>b''), (''fingerprint'', ''a1 b2'')])]"
    by blast
  from w1 w2 w3 show ?thesis by blast
qed

end
